theory Spec2Isabelle
  imports Main "HOL-Library.Sublist"
begin

section \<open>Data model (research/types.ts)\<close>

text \<open>
  Strings are lists of characters; a character is a code point below 256.
  A Research Result is the record of the interface \<^verbatim>\<open>ResearchResult\<close>; the optional
  field \<^verbatim>\<open>error\<close> is an option. The interface declares \<^verbatim>\<open>content\<close> a string and
  \<^verbatim>\<open>sources\<close> a list of strings; the record leaves the two types open, because a client
  fills them from a body it does not check (see the last section of the model).
\<close>

record ('c, 's) research_result =
  provider :: string
  query :: string
  content :: 'c
  sources :: 's
  success :: bool
  error :: "string option"
  durationMs :: int

type_synonym ResearchResult = "(string, string list) research_result"

record 'r aggregated_results =
  results :: "'r list"
  totalDurationMs :: int
  providersUsed :: "string list"
  allSources :: "string list"
  successCount :: nat
  failureCount :: nat

type_synonym AggregatedResults = "ResearchResult aggregated_results"

section \<open>What a provider call meets: thrown values, responses, bodies\<close>

text \<open>
  A value that is thrown (or with which a promise rejects) is either an \<^verbatim>\<open>Error\<close>
  object with its message, or any other value, kept as the string \<^verbatim>\<open>String(v)\<close>.
\<close>

datatype js_thrown = JsError string | JsValue string

text \<open>\<^verbatim>\<open>err instanceof Error ? err.message : String(err)\<close>\<close>

fun error_message :: "js_thrown \<Rightarrow> string" where
  "error_message (JsError m) = m"
| "error_message (JsValue s) = s"

text \<open>
  The parsed body at the type the providers cast it to: every field is optional, and
  one record carries the fields of the chat-completion shape (\<^verbatim>\<open>choices\<close>,
  \<^verbatim>\<open>citations\<close>) and of the content/parts shape (\<^verbatim>\<open>candidates\<close>). A body
  that parses to \<^verbatim>\<open>null\<close> is kept apart: reading a property of it throws.
\<close>

record chat_message =
  msg_content :: "string option"

record chat_choice =
  choice_message :: "chat_message option"

record gemini_part =
  part_text :: "string option"

record gemini_content =
  content_parts :: "gemini_part list option"

record gemini_candidate =
  candidate_content :: "gemini_content option"

record response_data =
  choices :: "chat_choice list option"
  citations :: "string list option"
  candidates :: "gemini_candidate list option"

datatype json_body = JsonNull | JsonObject response_data

text \<open>
  A response: \<^verbatim>\<open>ok\<close>, \<^verbatim>\<open>status\<close>, and what \<^verbatim>\<open>text()\<close> and
  \<^verbatim>\<open>json()\<close> settle with (left: the promise rejects). The type of the parsed body is
  left open.
\<close>

record 'b response =
  resp_ok :: bool
  resp_status :: nat
  resp_text :: "js_thrown + string"
  resp_json :: "js_thrown + 'b"

type_synonym http_response = "json_body response"

text \<open>
  The environment of one \<^verbatim>\<open>search\<close> call: what \<^verbatim>\<open>fetch\<close> settles with (left:
  network error, or the abort after \<^verbatim>\<open>timeoutMs\<close>), and \<^verbatim>\<open>Date.now() - start\<close>
  when the result object is built.
\<close>

record 'b env =
  fetch_result :: "js_thrown + 'b response"
  elapsed :: int

type_synonym call_env = "json_body env"

subsection \<open>Numbers in template strings\<close>

definition digit_char :: "nat \<Rightarrow> char" where
  "digit_char d = char_of (48 + d)"

function string_of_nat :: "nat \<Rightarrow> string" where
  "string_of_nat n =
     (if n < 10 then [digit_char n] else string_of_nat (n div 10) @ [digit_char (n mod 10)])"
  by pat_completeness auto
termination
  by (relation "measure id") auto

declare string_of_nat.simps [simp del]

definition null_property_error :: "string \<Rightarrow> js_thrown" where
  "null_property_error prop =
     JsError (''Cannot read properties of null (reading '' @ [CHR 0x27] @ prop @ [CHR 0x27] @ '')'')"

section \<open>Provider clients\<close>

text \<open>
  Each \<^verbatim>\<open>search\<close> is a \<^verbatim>\<open>try\<close> block and a \<^verbatim>\<open>catch\<close> block. The
  \<^verbatim>\<open>try\<close> block is a function that returns the result object or the thrown value;
  \<^verbatim>\<open>search\<close> itself returns what its promise settles with (left: it rejects).
\<close>

subsection \<open>Perplexity (research/perplexity.ts)\<close>

definition perplexity_name :: string where
  "perplexity_name = ''Perplexity''"

text \<open>\<^verbatim>\<open>data.choices?.[0]?.message?.content ?? ''\<close>\<close>

definition chat_content :: "response_data \<Rightarrow> string" where
  "chat_content d =
     (case choices d of
        None \<Rightarrow> []
      | Some cs \<Rightarrow>
          (case cs of
             [] \<Rightarrow> []
           | c # _ \<Rightarrow>
               (case choice_message c of
                  None \<Rightarrow> []
                | Some m \<Rightarrow> (case msg_content m of None \<Rightarrow> [] | Some s \<Rightarrow> s))))"

definition perplexity_try :: "string \<Rightarrow> call_env \<Rightarrow> js_thrown + ResearchResult" where
  "perplexity_try q env =
     (case fetch_result env of
        Inl err \<Rightarrow> Inl err
      | Inr response \<Rightarrow>
          if \<not> resp_ok response then
            (case resp_text response of
               Inl err \<Rightarrow> Inl err
             | Inr errorText \<Rightarrow>
                 Inr \<lparr>provider = perplexity_name, query = q, content = [], sources = [],
                      success = False,
                      error = Some (''HTTP '' @ string_of_nat (resp_status response) @ '': '' @ errorText),
                      durationMs = elapsed env\<rparr>)
          else
            (case resp_json response of
               Inl err \<Rightarrow> Inl err
             | Inr JsonNull \<Rightarrow> Inl (null_property_error ''choices'')
             | Inr (JsonObject d) \<Rightarrow>
                 Inr \<lparr>provider = perplexity_name, query = q, content = chat_content d,
                      sources = (case citations d of None \<Rightarrow> [] | Some cs \<Rightarrow> cs),
                      success = True, error = None, durationMs = elapsed env\<rparr>))"

definition perplexity_search ::
  "string \<Rightarrow> string \<Rightarrow> int \<Rightarrow> call_env \<Rightarrow> js_thrown + ResearchResult" where
  "perplexity_search apiKey q timeoutMs env =
     (case perplexity_try q env of
        Inr r \<Rightarrow> Inr r
      | Inl err \<Rightarrow>
          Inr \<lparr>provider = perplexity_name, query = q, content = [], sources = [],
               success = False, error = Some (error_message err), durationMs = elapsed env\<rparr>)"

subsection \<open>Grok (research/grok.ts)\<close>

definition grok_name :: string where
  "grok_name = ''Grok''"

definition grok_try :: "string \<Rightarrow> call_env \<Rightarrow> js_thrown + ResearchResult" where
  "grok_try q env =
     (case fetch_result env of
        Inl err \<Rightarrow> Inl err
      | Inr response \<Rightarrow>
          if \<not> resp_ok response then
            (case resp_text response of
               Inl err \<Rightarrow> Inl err
             | Inr errorText \<Rightarrow>
                 Inr \<lparr>provider = grok_name, query = q, content = [], sources = [],
                      success = False,
                      error = Some (''HTTP '' @ string_of_nat (resp_status response) @ '': '' @ errorText),
                      durationMs = elapsed env\<rparr>)
          else
            (case resp_json response of
               Inl err \<Rightarrow> Inl err
             | Inr JsonNull \<Rightarrow> Inl (null_property_error ''choices'')
             | Inr (JsonObject d) \<Rightarrow>
                 Inr \<lparr>provider = grok_name, query = q, content = chat_content d,
                      sources = [], success = True, error = None, durationMs = elapsed env\<rparr>))"

definition grok_search ::
  "string \<Rightarrow> string \<Rightarrow> int \<Rightarrow> call_env \<Rightarrow> js_thrown + ResearchResult" where
  "grok_search apiKey q timeoutMs env =
     (case grok_try q env of
        Inr r \<Rightarrow> Inr r
      | Inl err \<Rightarrow>
          Inr \<lparr>provider = grok_name, query = q, content = [], sources = [],
               success = False, error = Some (error_message err), durationMs = elapsed env\<rparr>)"

subsection \<open>Gemini (research/gemini.ts)\<close>

definition gemini_name :: string where
  "gemini_name = ''Gemini''"

text \<open>\<^verbatim>\<open>data.candidates?.[0]?.content?.parts?.[0]?.text ?? ''\<close>\<close>

definition gemini_text :: "response_data \<Rightarrow> string" where
  "gemini_text d =
     (case candidates d of
        None \<Rightarrow> []
      | Some cs \<Rightarrow>
          (case cs of
             [] \<Rightarrow> []
           | c # _ \<Rightarrow>
               (case candidate_content c of
                  None \<Rightarrow> []
                | Some k \<Rightarrow>
                    (case content_parts k of
                       None \<Rightarrow> []
                     | Some ps \<Rightarrow>
                         (case ps of
                            [] \<Rightarrow> []
                          | p # _ \<Rightarrow> (case part_text p of None \<Rightarrow> [] | Some s \<Rightarrow> s))))))"

definition gemini_try :: "string \<Rightarrow> call_env \<Rightarrow> js_thrown + ResearchResult" where
  "gemini_try q env =
     (case fetch_result env of
        Inl err \<Rightarrow> Inl err
      | Inr response \<Rightarrow>
          if \<not> resp_ok response then
            (case resp_text response of
               Inl err \<Rightarrow> Inl err
             | Inr errorText \<Rightarrow>
                 Inr \<lparr>provider = gemini_name, query = q, content = [], sources = [],
                      success = False,
                      error = Some (''HTTP '' @ string_of_nat (resp_status response) @ '': '' @ errorText),
                      durationMs = elapsed env\<rparr>)
          else
            (case resp_json response of
               Inl err \<Rightarrow> Inl err
             | Inr JsonNull \<Rightarrow> Inl (null_property_error ''candidates'')
             | Inr (JsonObject d) \<Rightarrow>
                 Inr \<lparr>provider = gemini_name, query = q, content = gemini_text d,
                      sources = [], success = True, error = None, durationMs = elapsed env\<rparr>))"

definition gemini_search ::
  "string \<Rightarrow> string \<Rightarrow> int \<Rightarrow> call_env \<Rightarrow> js_thrown + ResearchResult" where
  "gemini_search apiKey q timeoutMs env =
     (case gemini_try q env of
        Inr r \<Rightarrow> Inr r
      | Inl err \<Rightarrow>
          Inr \<lparr>provider = gemini_name, query = q, content = [], sources = [],
               success = False, error = Some (error_message err), durationMs = elapsed env\<rparr>)"

section \<open>Query generator (research/queries.ts)\<close>

subsection \<open>String operations\<close>

text \<open>
  A character is a code point below 256 (ISO 8859-1); text with other characters is
  outside the model. White space of \<^verbatim>\<open>trim\<close> and of \<^verbatim>\<open>\s\<close> is, among these, tab, line
  feed, vertical tab, form feed, carriage return, space and the no-break space U+00A0.
\<close>

definition is_space :: "char \<Rightarrow> bool" where
  "is_space c = (c \<in> {CHR 0x09, CHR 0x0A, CHR 0x0B, CHR 0x0C, CHR 0x0D, CHR '' '', CHR 0xA0})"

definition trim :: "string \<Rightarrow> string" where
  "trim s = rev (dropWhile is_space (rev (dropWhile is_space s)))"

text \<open>
  \<^verbatim>\<open>toLowerCase\<close>: the letters A to Z go to a to z, the letters U+00C0 to U+00DE (without
  the multiplication sign U+00D7) go to U+00E0 to U+00FE, every other character stays.
\<close>

definition lower_table :: "(char \<times> char) list" where
  "lower_table =
     [(CHR ''A'', CHR ''a''), (CHR ''B'', CHR ''b''), (CHR ''C'', CHR ''c''), (CHR ''D'', CHR ''d''),
      (CHR ''E'', CHR ''e''), (CHR ''F'', CHR ''f''), (CHR ''G'', CHR ''g''), (CHR ''H'', CHR ''h''),
      (CHR ''I'', CHR ''i''), (CHR ''J'', CHR ''j''), (CHR ''K'', CHR ''k''), (CHR ''L'', CHR ''l''),
      (CHR ''M'', CHR ''m''), (CHR ''N'', CHR ''n''), (CHR ''O'', CHR ''o''), (CHR ''P'', CHR ''p''),
      (CHR ''Q'', CHR ''q''), (CHR ''R'', CHR ''r''), (CHR ''S'', CHR ''s''), (CHR ''T'', CHR ''t''),
      (CHR ''U'', CHR ''u''), (CHR ''V'', CHR ''v''), (CHR ''W'', CHR ''w''), (CHR ''X'', CHR ''x''),
      (CHR ''Y'', CHR ''y''), (CHR ''Z'', CHR ''z''), (CHR 0xC0, CHR 0xE0), (CHR 0xC1, CHR 0xE1),
      (CHR 0xC2, CHR 0xE2), (CHR 0xC3, CHR 0xE3), (CHR 0xC4, CHR 0xE4), (CHR 0xC5, CHR 0xE5),
      (CHR 0xC6, CHR 0xE6), (CHR 0xC7, CHR 0xE7), (CHR 0xC8, CHR 0xE8), (CHR 0xC9, CHR 0xE9),
      (CHR 0xCA, CHR 0xEA), (CHR 0xCB, CHR 0xEB), (CHR 0xCC, CHR 0xEC), (CHR 0xCD, CHR 0xED),
      (CHR 0xCE, CHR 0xEE), (CHR 0xCF, CHR 0xEF), (CHR 0xD0, CHR 0xF0), (CHR 0xD1, CHR 0xF1),
      (CHR 0xD2, CHR 0xF2), (CHR 0xD3, CHR 0xF3), (CHR 0xD4, CHR 0xF4), (CHR 0xD5, CHR 0xF5),
      (CHR 0xD6, CHR 0xF6), (CHR 0xD8, CHR 0xF8), (CHR 0xD9, CHR 0xF9), (CHR 0xDA, CHR 0xFA),
      (CHR 0xDB, CHR 0xFB), (CHR 0xDC, CHR 0xFC), (CHR 0xDD, CHR 0xFD), (CHR 0xDE, CHR 0xFE)]"

definition lower_char :: "char \<Rightarrow> char" where
  "lower_char c = (case map_of lower_table c of None \<Rightarrow> c | Some l \<Rightarrow> l)"

definition toLowerCase :: "string \<Rightarrow> string" where
  "toLowerCase s = map lower_char s"

subsection \<open>The legal-suffix pattern\<close>

text \<open>
  \<^verbatim>\<open>/,?\s*(Inc\.|LLC|Ltd\.?|Corp\.?|GmbH|B\.V\.)$/i\<close>. The words the group matches,
  in lower case:
\<close>

definition legal_suffixes :: "string list" where
  "legal_suffixes = [''inc.'', ''llc'', ''ltd'', ''ltd.'', ''corp'', ''corp.'', ''gmbh'', ''b.v.'']"

text \<open>
  The pattern matches at a position when the rest of the string, from there to its end,
  is an optional comma, white space, and one of the words in any letter case. No word
  starts with a comma or with white space, so a comma or white space at the front can
  only be taken by \<^verbatim>\<open>,?\<close> and \<^verbatim>\<open>\s*\<close>. Without the flag \<^verbatim>\<open>u\<close>, the flag \<^verbatim>\<open>i\<close> lets a
  letter of the pattern match its two ASCII forms only, which is what lower-casing the
  rest and comparing it with the lower-case words does: no character outside ASCII is
  lower-cased to an ASCII letter.
\<close>

definition suffix_matches :: "string \<Rightarrow> bool" where
  "suffix_matches t =
     (let t1 = (case t of [] \<Rightarrow> [] | c # r \<Rightarrow> if c = CHR '','' then r else c # r);
          t2 = dropWhile is_space t1
      in toLowerCase t2 \<in> set legal_suffixes)"

text \<open>
  \<^verbatim>\<open>replace(pattern, '')\<close> removes the leftmost match; the match ends at the end
  of the string, so everything from the first matching position on is removed.
\<close>

fun strip_suffix :: "string \<Rightarrow> string" where
  "strip_suffix [] = []"
| "strip_suffix (c # cs) = (if suffix_matches (c # cs) then [] else c # strip_suffix cs)"

definition shortName :: "string \<Rightarrow> string" where
  "shortName vendorName = trim (strip_suffix vendorName)"

text \<open>\<^verbatim>\<open>servicesUsed ? ` ${servicesUsed}` : ''\<close>: an absent and an empty string are falsy.\<close>

definition serviceContext :: "string option \<Rightarrow> string" where
  "serviceContext servicesUsed =
     (case servicesUsed of
        None \<Rightarrow> []
      | Some s \<Rightarrow> if s = [] then [] else CHR '' '' # s)"

record DPSIAQueries =
  perplexity :: "string list"
  gemini :: "string list"
  grok :: "string list"

definition generateQueries :: "string \<Rightarrow> string option \<Rightarrow> DPSIAQueries" where
  "generateQueries vendorName servicesUsed =
     (let sn = shortName vendorName; sc = serviceContext servicesUsed in
      \<lparr>perplexity =
         [sn @ '' security certifications ISO 27001 SOC 2 Type II 2025 2026'',
          sn @ '' data breach incidents security vulnerabilities CVE history'',
          sn @ '' GDPR compliance data processing agreement privacy policy'' @ sc],
       gemini =
         [sn @ '' security posture assessment encryption access controls infrastructure. Analyse their security architecture, encryption standards, and access control mechanisms.'',
          sn @ '' vendor risk compliance status regulatory actions enforcement. Evaluate their compliance posture across ISO 27001, SOC 2, GDPR, and any regulatory enforcement actions.'',
          sn @ '' service availability SLA disaster recovery redundancy architecture'' @ sc @ ''. Assess their availability guarantees, redundancy, and disaster recovery capabilities.''],
       grok =
         [sn @ '' security incidents criticism concerns vulnerabilities 2024 2025 2026. What are the most significant security concerns, incidents, or criticisms? Be thorough and unbiased.'',
          sn @ '' enforcement actions fines regulatory investigations GDPR ICO FTC. Has this company faced any regulatory enforcement, fines, or investigations?'',
          sn @ '' alternatives comparison security weaknesses limitations'' @ sc @ ''. What are the known security weaknesses or limitations compared to alternatives?'']\<rparr>)"

section \<open>Research orchestrator (research/orchestrator.ts)\<close>

text \<open>
  The capability interface: a name and \<^verbatim>\<open>search(query, timeoutMs)\<close>, which here
  also takes the environment of the call and returns what its promise settles with.
\<close>

record ('b, 'r) research_provider =
  name :: string
  search :: "string \<Rightarrow> int \<Rightarrow> 'b env \<Rightarrow> js_thrown + 'r"

type_synonym ResearchProvider = "(json_body, ResearchResult) research_provider"

definition PerplexityProvider :: "string \<Rightarrow> ResearchProvider" where
  "PerplexityProvider apiKey = \<lparr>name = perplexity_name, search = perplexity_search apiKey\<rparr>"

definition GeminiProvider :: "string \<Rightarrow> ResearchProvider" where
  "GeminiProvider apiKey = \<lparr>name = gemini_name, search = gemini_search apiKey\<rparr>"

definition GrokProvider :: "string \<Rightarrow> ResearchProvider" where
  "GrokProvider apiKey = \<lparr>name = grok_name, search = grok_search apiKey\<rparr>"

record ResearchConfig =
  perplexityApiKey :: string
  googleApiKey :: string
  xaiApiKey :: string
  timeoutMs :: "int option"

text \<open>
  The world of one run: the environment of the i-th dispatched call (the calls are
  issued in task order), \<^verbatim>\<open>Date.now() - start\<close> when the i-th outcome is collected and
  when the aggregate is built.
\<close>

record 'b run =
  call :: "nat \<Rightarrow> 'b env"
  collect_elapsed :: "nat \<Rightarrow> int"
  total_elapsed :: int

type_synonym world = "json_body run"

type_synonym task = "ResearchProvider \<times> string"

text \<open>The two nested loops that push the tasks.\<close>

definition build_tasks :: "('p \<times> string list) list \<Rightarrow> ('p \<times> string) list" where
  "build_tasks providers =
     fold (\<lambda>(p, providerQueries) tasks. fold (\<lambda>q tasks. tasks @ [(p, q)]) providerQueries tasks)
       providers []"

text \<open>
  \<^verbatim>\<open>Promise.allSettled(tasks.map(...))\<close>: one outcome per task, at the task's index.
\<close>

definition settle_all ::
  "(('b, 'r) research_provider \<times> string) list \<Rightarrow> int \<Rightarrow> 'b run \<Rightarrow> (js_thrown + 'r) list" where
  "settle_all tasks tmo w =
     map (\<lambda>(i, (p, q)). search p q tmo (call w i)) (enumerate 0 tasks)"

definition collect_results ::
  "task list \<Rightarrow> world \<Rightarrow> (js_thrown + ResearchResult) list \<Rightarrow> ResearchResult list" where
  "collect_results tasks w settled =
     map (\<lambda>(i, outcome).
            case outcome of
              Inr v \<Rightarrow> v
            | Inl reason \<Rightarrow>
                \<lparr>provider = name (fst (tasks ! i)), query = snd (tasks ! i), content = [],
                 sources = [], success = False, error = Some (error_message reason),
                 durationMs = collect_elapsed w i\<rparr>)
         (enumerate 0 settled)"

text \<open>The deduplication loop: the list \<^verbatim>\<open>allSources\<close> and the set \<^verbatim>\<open>seen\<close>.\<close>

definition normalise :: "string \<Rightarrow> string" where
  "normalise src = toLowerCase (trim src)"

definition dedup_step :: "string \<Rightarrow> string list \<times> string set \<Rightarrow> string list \<times> string set" where
  "dedup_step src st =
     (case st of (acc, seen) \<Rightarrow>
        if normalise src \<notin> seen then (acc @ [src], insert (normalise src) seen) else (acc, seen))"

definition collect_sources :: "ResearchResult list \<Rightarrow> string list" where
  "collect_sources rs = fst (fold (\<lambda>r st. fold dedup_step (sources r) st) rs ([], {}))"

text \<open>\<^verbatim>\<open>[...new Set(xs)]\<close>: the distinct values in the order of their first insertion.\<close>

definition set_values :: "'a list \<Rightarrow> 'a list" where
  "set_values xs = fold (\<lambda>x acc. if x \<in> set acc then acc else acc @ [x]) xs []"

text \<open>
  The body of \<^verbatim>\<open>conductResearch\<close> from the task loops on, for any table of providers
  and their queries.
\<close>

definition conductResearchWith ::
  "(ResearchProvider \<times> string list) list \<Rightarrow> int \<Rightarrow> world \<Rightarrow> AggregatedResults" where
  "conductResearchWith providers tmo w =
     (let tasks = build_tasks providers;
          settled = settle_all tasks tmo w;
          rs = collect_results tasks w settled
      in \<lparr>results = rs,
          totalDurationMs = total_elapsed w,
          providersUsed = set_values (map provider (filter success rs)),
          allSources = collect_sources rs,
          successCount = length (filter success rs),
          failureCount = length (filter (\<lambda>r. \<not> success r) rs)\<rparr>)"

definition provider_table ::
  "string \<Rightarrow> ResearchConfig \<Rightarrow> string option \<Rightarrow> (ResearchProvider \<times> string list) list" where
  "provider_table vendorName config servicesUsed =
     (let queries = generateQueries vendorName servicesUsed in
      [(PerplexityProvider (perplexityApiKey config), perplexity queries),
       (GeminiProvider (googleApiKey config), gemini queries),
       (GrokProvider (xaiApiKey config), grok queries)])"

definition conductResearch ::
  "string \<Rightarrow> ResearchConfig \<Rightarrow> string option \<Rightarrow> world \<Rightarrow> AggregatedResults" where
  "conductResearch vendorName config servicesUsed w =
     (let tmo = (case timeoutMs config of None \<Rightarrow> 90000 | Some t \<Rightarrow> t)
      in conductResearchWith (provider_table vendorName config servicesUsed) tmo w)"

section \<open>Prompt formatter (research/orchestrator.ts)\<close>

text \<open>
  \<^verbatim>\<open>byProvider\<close> is a \<^verbatim>\<open>Map\<close>, which keeps its keys in the order of their first
  insertion: an association list. \<^verbatim>\<open>set\<close> on a key that is present keeps its place.
\<close>

type_synonym provider_map = "(string \<times> ResearchResult list) list"

definition map_set :: "provider_map \<Rightarrow> string \<Rightarrow> ResearchResult list \<Rightarrow> provider_map" where
  "map_set m k v =
     (if k \<in> fst ` set m then map (\<lambda>(k', v'). if k' = k then (k', v) else (k', v')) m
      else m @ [(k, v)])"

definition group_step :: "ResearchResult \<Rightarrow> provider_map \<Rightarrow> provider_map" where
  "group_step r m =
     (let existing = (case map_of m (provider r) of None \<Rightarrow> [] | Some rs \<Rightarrow> rs)
      in map_set m (provider r) (existing @ [r]))"

definition byProvider :: "ResearchResult list \<Rightarrow> provider_map" where
  "byProvider rs = fold group_step rs []"

definition provider_label :: "string \<Rightarrow> string" where
  "provider_label p =
     (if p = ''Perplexity'' then ''Perplexity (Web Search with Citations)''
      else if p = ''Gemini'' then ''Gemini (Multi-Perspective Analysis)''
      else if p = ''Grok'' then ''Grok (Contrarian Analysis)''
      else p)"

definition nl :: string where
  "nl = [CHR 0x0A]"

text \<open>\<^verbatim>\<open>${r.error}\<close>: an absent error is interpolated as the text "undefined".\<close>

definition error_text :: "string option \<Rightarrow> string" where
  "error_text e = (case e of None \<Rightarrow> ''undefined'' | Some m \<Rightarrow> m)"

text \<open>The body of the loop over the results of one provider: the pushes onto \<^verbatim>\<open>sections\<close>.\<close>

definition push_result :: "ResearchResult \<Rightarrow> string list \<Rightarrow> string list" where
  "push_result r sections =
     (if success r \<and> content r \<noteq> [] then
        (let s1 = sections @ [''**Query:** '' @ query r @ nl];
             s2 = s1 @ [content r];
             s3 = (if length (sources r) > 0
                   then fold (\<lambda>src s. s @ [''- '' @ src]) (sources r) (s2 @ [nl @ ''**Sources:**''])
                   else s2)
         in s3 @ [[]])
      else if \<not> success r then
        (sections @ [''**Query:** '' @ query r]) @ [''*Failed: '' @ error_text (error r) @ ''*'' @ nl]
      else sections)"

definition push_group :: "string \<times> ResearchResult list \<Rightarrow> string list \<Rightarrow> string list" where
  "push_group g sections =
     (case g of (p, rs) \<Rightarrow> fold push_result rs (sections @ [''### '' @ provider_label p @ nl]))"

text \<open>\<^verbatim>\<open>sections.join('\n')\<close>\<close>

fun join_lines :: "string list \<Rightarrow> string" where
  "join_lines [] = []"
| "join_lines [x] = x"
| "join_lines (x # y # ys) = x @ nl @ join_lines (y # ys)"

definition format_sections :: "ResearchResult list \<Rightarrow> string list" where
  "format_sections rs = fold push_group (byProvider rs) []"

definition formatResearchForPrompt :: "AggregatedResults \<Rightarrow> string" where
  "formatResearchForPrompt aggregated = join_lines (format_sections (results aggregated))"

section \<open>The clients and the orchestrator on the body as received\<close>

text \<open>
  The sections above take the parsed body at the type the clients cast it to
  (\<^verbatim>\<open>await response.json() as {...}\<close>). The cast checks nothing: the body is whatever
  JSON the provider sent, and the result a client builds from it can hold any JSON value
  as its content and as its sources. This section repeats the clients and the
  orchestrator on the body as a JSON value, with the errors the run time raises when a
  value is used at the wrong type; the messages are those of Node 20. An integer stands
  for any number: the code does not compute with the numbers of a body.
\<close>

datatype json =
  JNull | JBool bool | JNum int | JStr string | JArr "json list" | JObj "(string \<times> json) list"

type_synonym RuntimeResult = "(json, json) research_result"

text \<open>
  \<^verbatim>\<open>v.key\<close> for a value that is not \<^verbatim>\<open>null\<close> and a key among \<^verbatim>\<open>choices\<close>,
  \<^verbatim>\<open>message\<close>, \<^verbatim>\<open>content\<close>, \<^verbatim>\<open>citations\<close>, \<^verbatim>\<open>candidates\<close>, \<^verbatim>\<open>parts\<close>, \<^verbatim>\<open>text\<close>: only
  an object has such a property, and of a key written twice the parser keeps the last.
  The result is an option: \<^verbatim>\<open>undefined\<close> is None.
\<close>

fun get :: "json \<Rightarrow> string \<Rightarrow> json option" where
  "get (JObj kvs) key = map_of (rev kvs) key"
| "get v key = None"

text \<open>\<^verbatim>\<open>v[0]\<close> for a value that is not \<^verbatim>\<open>null\<close>.\<close>

fun at0 :: "json \<Rightarrow> json option" where
  "at0 (JArr xs) = (case xs of [] \<Rightarrow> None | x # _ \<Rightarrow> Some x)"
| "at0 (JStr s) = (case s of [] \<Rightarrow> None | c # _ \<Rightarrow> Some (JStr [c]))"
| "at0 (JObj kvs) = map_of (rev kvs) ''0''"
| "at0 v = None"

text \<open>\<^verbatim>\<open>?.\<close>: on \<^verbatim>\<open>undefined\<close> and on \<^verbatim>\<open>null\<close> the access is not made.\<close>

fun opt_chain :: "(json \<Rightarrow> json option) \<Rightarrow> json option \<Rightarrow> json option" where
  "opt_chain f None = None"
| "opt_chain f (Some JNull) = None"
| "opt_chain f (Some v) = f v"

text \<open>\<^verbatim>\<open>??\<close>: the default replaces \<^verbatim>\<open>undefined\<close> and \<^verbatim>\<open>null\<close> only.\<close>

fun nullish_or :: "json option \<Rightarrow> json \<Rightarrow> json" where
  "nullish_or None d = d"
| "nullish_or (Some JNull) d = d"
| "nullish_or (Some v) d = v"

subsection \<open>Perplexity\<close>

text \<open>\<^verbatim>\<open>data.choices?.[0]?.message?.content ?? ''\<close>, for \<^verbatim>\<open>data\<close> not \<^verbatim>\<open>null\<close>\<close>

definition chat_content_rt :: "json \<Rightarrow> json" where
  "chat_content_rt d =
     nullish_or
       (opt_chain (\<lambda>v. get v ''content'')
          (opt_chain (\<lambda>v. get v ''message'') (opt_chain at0 (get d ''choices''))))
       (JStr [])"

definition perplexity_try_rt :: "string \<Rightarrow> json env \<Rightarrow> js_thrown + RuntimeResult" where
  "perplexity_try_rt q env =
     (case fetch_result env of
        Inl err \<Rightarrow> Inl err
      | Inr response \<Rightarrow>
          if \<not> resp_ok response then
            (case resp_text response of
               Inl err \<Rightarrow> Inl err
             | Inr errorText \<Rightarrow>
                 Inr \<lparr>provider = perplexity_name, query = q, content = JStr [], sources = JArr [],
                      success = False,
                      error = Some (''HTTP '' @ string_of_nat (resp_status response) @ '': '' @ errorText),
                      durationMs = elapsed env\<rparr>)
          else
            (case resp_json response of
               Inl err \<Rightarrow> Inl err
             | Inr d \<Rightarrow>
                 if d = JNull then Inl (null_property_error ''choices'')
                 else
                   Inr \<lparr>provider = perplexity_name, query = q, content = chat_content_rt d,
                        sources = nullish_or (get d ''citations'') (JArr []),
                        success = True, error = None, durationMs = elapsed env\<rparr>))"

definition perplexity_search_rt ::
  "string \<Rightarrow> string \<Rightarrow> int \<Rightarrow> json env \<Rightarrow> js_thrown + RuntimeResult" where
  "perplexity_search_rt apiKey q tmo env =
     (case perplexity_try_rt q env of
        Inr r \<Rightarrow> Inr r
      | Inl err \<Rightarrow>
          Inr \<lparr>provider = perplexity_name, query = q, content = JStr [], sources = JArr [],
               success = False, error = Some (error_message err), durationMs = elapsed env\<rparr>)"

subsection \<open>Grok\<close>

definition grok_try_rt :: "string \<Rightarrow> json env \<Rightarrow> js_thrown + RuntimeResult" where
  "grok_try_rt q env =
     (case fetch_result env of
        Inl err \<Rightarrow> Inl err
      | Inr response \<Rightarrow>
          if \<not> resp_ok response then
            (case resp_text response of
               Inl err \<Rightarrow> Inl err
             | Inr errorText \<Rightarrow>
                 Inr \<lparr>provider = grok_name, query = q, content = JStr [], sources = JArr [],
                      success = False,
                      error = Some (''HTTP '' @ string_of_nat (resp_status response) @ '': '' @ errorText),
                      durationMs = elapsed env\<rparr>)
          else
            (case resp_json response of
               Inl err \<Rightarrow> Inl err
             | Inr d \<Rightarrow>
                 if d = JNull then Inl (null_property_error ''choices'')
                 else
                   Inr \<lparr>provider = grok_name, query = q, content = chat_content_rt d,
                        sources = JArr [], success = True, error = None,
                        durationMs = elapsed env\<rparr>))"

definition grok_search_rt ::
  "string \<Rightarrow> string \<Rightarrow> int \<Rightarrow> json env \<Rightarrow> js_thrown + RuntimeResult" where
  "grok_search_rt apiKey q tmo env =
     (case grok_try_rt q env of
        Inr r \<Rightarrow> Inr r
      | Inl err \<Rightarrow>
          Inr \<lparr>provider = grok_name, query = q, content = JStr [], sources = JArr [],
               success = False, error = Some (error_message err), durationMs = elapsed env\<rparr>)"

subsection \<open>Gemini\<close>

text \<open>\<^verbatim>\<open>data.candidates?.[0]?.content?.parts?.[0]?.text ?? ''\<close>, for \<^verbatim>\<open>data\<close> not \<^verbatim>\<open>null\<close>\<close>

definition gemini_text_rt :: "json \<Rightarrow> json" where
  "gemini_text_rt d =
     nullish_or
       (opt_chain (\<lambda>v. get v ''text'')
          (opt_chain at0
             (opt_chain (\<lambda>v. get v ''parts'')
                (opt_chain (\<lambda>v. get v ''content'') (opt_chain at0 (get d ''candidates''))))))
       (JStr [])"

definition gemini_try_rt :: "string \<Rightarrow> json env \<Rightarrow> js_thrown + RuntimeResult" where
  "gemini_try_rt q env =
     (case fetch_result env of
        Inl err \<Rightarrow> Inl err
      | Inr response \<Rightarrow>
          if \<not> resp_ok response then
            (case resp_text response of
               Inl err \<Rightarrow> Inl err
             | Inr errorText \<Rightarrow>
                 Inr \<lparr>provider = gemini_name, query = q, content = JStr [], sources = JArr [],
                      success = False,
                      error = Some (''HTTP '' @ string_of_nat (resp_status response) @ '': '' @ errorText),
                      durationMs = elapsed env\<rparr>)
          else
            (case resp_json response of
               Inl err \<Rightarrow> Inl err
             | Inr d \<Rightarrow>
                 if d = JNull then Inl (null_property_error ''candidates'')
                 else
                   Inr \<lparr>provider = gemini_name, query = q, content = gemini_text_rt d,
                        sources = JArr [], success = True, error = None,
                        durationMs = elapsed env\<rparr>))"

definition gemini_search_rt ::
  "string \<Rightarrow> string \<Rightarrow> int \<Rightarrow> json env \<Rightarrow> js_thrown + RuntimeResult" where
  "gemini_search_rt apiKey q tmo env =
     (case gemini_try_rt q env of
        Inr r \<Rightarrow> Inr r
      | Inl err \<Rightarrow>
          Inr \<lparr>provider = gemini_name, query = q, content = JStr [], sources = JArr [],
               success = False, error = Some (error_message err), durationMs = elapsed env\<rparr>)"

subsection \<open>The orchestrator\<close>

type_synonym RuntimeProvider = "(json, RuntimeResult) research_provider"

definition PerplexityProvider_rt :: "string \<Rightarrow> RuntimeProvider" where
  "PerplexityProvider_rt apiKey = \<lparr>name = perplexity_name, search = perplexity_search_rt apiKey\<rparr>"

definition GeminiProvider_rt :: "string \<Rightarrow> RuntimeProvider" where
  "GeminiProvider_rt apiKey = \<lparr>name = gemini_name, search = gemini_search_rt apiKey\<rparr>"

definition GrokProvider_rt :: "string \<Rightarrow> RuntimeProvider" where
  "GrokProvider_rt apiKey = \<lparr>name = grok_name, search = grok_search_rt apiKey\<rparr>"

definition collect_results_rt ::
  "(RuntimeProvider \<times> string) list \<Rightarrow> json run \<Rightarrow> (js_thrown + RuntimeResult) list
     \<Rightarrow> RuntimeResult list" where
  "collect_results_rt tasks w settled =
     map (\<lambda>(i, outcome).
            case outcome of
              Inr v \<Rightarrow> v
            | Inl reason \<Rightarrow>
                \<lparr>provider = name (fst (tasks ! i)), query = snd (tasks ! i), content = JStr [],
                 sources = JArr [], success = False, error = Some (error_message reason),
                 durationMs = collect_elapsed w i\<rparr>)
         (enumerate 0 settled)"

text \<open>
  \<^verbatim>\<open>for (const src of r.sources)\<close>: an array gives its elements, a string its characters,
  and nothing else is iterable.
\<close>

fun iterate :: "json \<Rightarrow> js_thrown + json list" where
  "iterate (JArr xs) = Inr xs"
| "iterate (JStr s) = Inr (map (\<lambda>c. JStr [c]) s)"
| "iterate v = Inl (JsError ''r.sources is not iterable'')"

text \<open>
  The body of the inner loop: \<^verbatim>\<open>src.trim()\<close> is a call of a method that only a string
  has; the string then goes through the step of the deduplication.
\<close>

fun scan_sources ::
  "json list \<Rightarrow> string list \<times> string set \<Rightarrow> js_thrown + string list \<times> string set" where
  "scan_sources [] st = Inr st"
| "scan_sources (JStr s # rest) st = scan_sources rest (dedup_step s st)"
| "scan_sources (JNull # rest) st =
     Inl (JsError (''Cannot read properties of null (reading '' @ [CHR 0x27] @ ''trim'' @ [CHR 0x27] @ '')''))"
| "scan_sources (v # rest) st = Inl (JsError ''src.trim is not a function'')"

fun scan_results ::
  "RuntimeResult list \<Rightarrow> string list \<times> string set \<Rightarrow> js_thrown + string list \<times> string set" where
  "scan_results [] st = Inr st"
| "scan_results (r # rs) st =
     (case iterate (sources r) of
        Inl err \<Rightarrow> Inl err
      | Inr items \<Rightarrow>
          (case scan_sources items st of
             Inl err \<Rightarrow> Inl err
           | Inr st' \<Rightarrow> scan_results rs st'))"

text \<open>
  The body of \<^verbatim>\<open>conductResearch\<close> from the task loops on. The loops over the sources are
  outside any \<^verbatim>\<open>try\<close>: what they throw rejects the promise of \<^verbatim>\<open>conductResearch\<close>
  (left).
\<close>

definition conductResearchWith_rt ::
  "(RuntimeProvider \<times> string list) list \<Rightarrow> int \<Rightarrow> json run
     \<Rightarrow> js_thrown + RuntimeResult aggregated_results" where
  "conductResearchWith_rt providers tmo w =
     (let tasks = build_tasks providers;
          settled = settle_all tasks tmo w;
          rs = collect_results_rt tasks w settled
      in case scan_results rs ([], {}) of
           Inl err \<Rightarrow> Inl err
         | Inr st \<Rightarrow>
             Inr \<lparr>results = rs,
                  totalDurationMs = total_elapsed w,
                  providersUsed = set_values (map provider (filter success rs)),
                  allSources = fst st,
                  successCount = length (filter success rs),
                  failureCount = length (filter (\<lambda>r. \<not> success r) rs)\<rparr>)"

definition provider_table_rt ::
  "string \<Rightarrow> ResearchConfig \<Rightarrow> string option \<Rightarrow> (RuntimeProvider \<times> string list) list" where
  "provider_table_rt vendorName config servicesUsed =
     (let queries = generateQueries vendorName servicesUsed in
      [(PerplexityProvider_rt (perplexityApiKey config), perplexity queries),
       (GeminiProvider_rt (googleApiKey config), gemini queries),
       (GrokProvider_rt (xaiApiKey config), grok queries)])"

definition conductResearch_rt ::
  "string \<Rightarrow> ResearchConfig \<Rightarrow> string option \<Rightarrow> json run
     \<Rightarrow> js_thrown + RuntimeResult aggregated_results" where
  "conductResearch_rt vendorName config servicesUsed w =
     (let tmo = (case timeoutMs config of None \<Rightarrow> 90000 | Some t \<Rightarrow> t)
      in conductResearchWith_rt (provider_table_rt vendorName config servicesUsed) tmo w)"

section \<open>Predicates and inputs used in the statements\<close>

text \<open>
  The failure modes of one call: \<^verbatim>\<open>fetch\<close> rejects (network error, or the abort at
  the timeout), the response is not ok, \<^verbatim>\<open>json()\<close> rejects (a body that does not
  parse), or the body parses to \<^verbatim>\<open>null\<close>.
\<close>

definition call_fails :: "call_env \<Rightarrow> bool" where
  "call_fails env =
     (case fetch_result env of
        Inl err \<Rightarrow> True
      | Inr response \<Rightarrow>
          if \<not> resp_ok response then True
          else (case resp_json response of
                  Inl err \<Rightarrow> True
                | Inr JsonNull \<Rightarrow> True
                | Inr (JsonObject d) \<Rightarrow> False))"

text \<open>A task fails when its promise rejects or its result has \<^verbatim>\<open>success = false\<close>.\<close>

definition task_fails :: "js_thrown + ResearchResult \<Rightarrow> bool" where
  "task_fails outcome = (case outcome of Inl reason \<Rightarrow> True | Inr r \<Rightarrow> \<not> success r)"

text \<open>The result object the orchestrator builds for a rejected task.\<close>

definition synthesized :: "task \<Rightarrow> js_thrown \<Rightarrow> int \<Rightarrow> ResearchResult" where
  "synthesized t reason d =
     \<lparr>provider = name (fst t), query = snd t, content = [], sources = [], success = False,
      error = Some (error_message reason), durationMs = d\<rparr>"

text \<open>
  The deduplication as the specification words it: a citation is kept when the
  normalisation of no earlier citation equals its own; the kept citations are the
  original strings, in their order.
\<close>

definition first_seen :: "string list \<Rightarrow> string list" where
  "first_seen srcs =
     map (nth srcs)
       (filter (\<lambda>i. normalise (srcs ! i) \<notin> normalise ` set (take i srcs)) [0..<length srcs])"

text \<open>Concrete inputs.\<close>

definition rejecting_provider :: ResearchProvider where
  "rejecting_provider = \<lparr>name = ''Mock'', search = (\<lambda>q t env. Inl (JsValue ''boom''))\<rparr>"

definition network_down :: world where
  "network_down = \<lparr>call = (\<lambda>i. \<lparr>fetch_result = Inl (JsError ''Network error''), elapsed = 5\<rparr>),
                   collect_elapsed = (\<lambda>i. 6), total_elapsed = 7\<rparr>"

definition test_config :: ResearchConfig where
  "test_config = \<lparr>perplexityApiKey = ''test-key'', googleApiKey = ''test-key'',
                  xaiApiKey = ''test-key'', timeoutMs = Some 5000\<rparr>"

definition citing_world :: world where
  "citing_world =
     \<lparr>call = (\<lambda>i. \<lparr>fetch_result = Inr \<lparr>resp_ok = True, resp_status = 200, resp_text = Inr [],
                resp_json = Inr (JsonObject \<lparr>choices = Some [\<lparr>choice_message = Some \<lparr>msg_content = Some ''Found certifications''\<rparr>\<rparr>],
                   citations = Some (if i = 0 then [''https://example.com'', ''https://acme.test/soc2'']
                                     else ['' HTTPS://Example.com '', ''https://acme.test/iso'']),
                   candidates = None\<rparr>)\<rparr>,
              elapsed = 800\<rparr>),
      collect_elapsed = (\<lambda>i. 900), total_elapsed = 1000\<rparr>"

text \<open>
  The lines of one result as the specification words them, and the lines of one provider
  group: its header, then the lines of its results.
\<close>

definition result_lines :: "ResearchResult \<Rightarrow> string list" where
  "result_lines r =
     (if success r \<and> content r \<noteq> [] then
        [''**Query:** '' @ query r @ nl, content r]
        @ (if sources r = [] then [] else (nl @ ''**Sources:**'') # map (\<lambda>src. ''- '' @ src) (sources r))
        @ [[]]
      else if \<not> success r then
        [''**Query:** '' @ query r, ''*Failed: '' @ error_text (error r) @ ''*'' @ nl]
      else [])"

definition group_lines :: "string \<Rightarrow> ResearchResult list \<Rightarrow> string list" where
  "group_lines p rs = (''### '' @ provider_label p @ nl) # concat (map result_lines rs)"

text \<open>Results of the formatter's tests, and a success without content.\<close>

definition found_certifications :: ResearchResult where
  "found_certifications =
     \<lparr>provider = ''Perplexity'', query = ''test query 1'', content = ''Found certifications'',
      sources = [''https://example.com''], success = True, error = None, durationMs = 1000\<rparr>"

definition api_timeout :: ResearchResult where
  "api_timeout =
     \<lparr>provider = ''Perplexity'', query = ''test'', content = [], sources = [], success = False,
      error = Some ''API timeout'', durationMs = 5000\<rparr>"

definition hollow_success :: ResearchResult where
  "hollow_success =
     \<lparr>provider = ''Gemini'', query = ''test query 2'', content = [], sources = [], success = True,
      error = None, durationMs = 2000\<rparr>"

text \<open>
  Vendor names with a trailing legal suffix: a character is plain when it is neither white
  space nor a comma; a separator is an optional comma followed by white space; a bare name
  has no white space at either end and no comma at its end.
\<close>

definition plain :: "char \<Rightarrow> bool" where
  "plain c = (\<not> is_space c \<and> c \<noteq> CHR '','')"

definition is_separator :: "string \<Rightarrow> bool" where
  "is_separator sep =
     (case sep of [] \<Rightarrow> True | c # r \<Rightarrow> (c = CHR '','' \<or> is_space c) \<and> list_all is_space r)"

definition bare_name :: "string \<Rightarrow> bool" where
  "bare_name nm = (case nm of [] \<Rightarrow> True | c # r \<Rightarrow> \<not> is_space c \<and> plain (last (c # r)))"

text \<open>
  What is left of the text in front of a trailing suffix once the separator is removed:
  the white space at its end, then one comma.
\<close>

definition strip_separator :: "string \<Rightarrow> string" where
  "strip_separator b =
     rev (case dropWhile is_space (rev b) of
            [] \<Rightarrow> []
          | c # r \<Rightarrow> if c = CHR '','' then r else c # r)"

text \<open>The nine queries of a batch, in dispatch order.\<close>

definition all_queries :: "DPSIAQueries \<Rightarrow> string list" where
  "all_queries qs = perplexity qs @ gemini qs @ grok qs"

text \<open>
  The fixed text of the templates after the short name and its space, and after the
  services clause and its full stop; a text is clean when no legal suffix occurs in it in
  any letter case.
\<close>

definition clean :: "string \<Rightarrow> bool" where
  "clean T = list_all (\<lambda>L. \<not> sublist L (toLowerCase T)) legal_suffixes"

definition tail_P0 :: string where
  "tail_P0 = ''security certifications ISO 27001 SOC 2 Type II 2025 2026''"

definition tail_P1 :: string where
  "tail_P1 = ''data breach incidents security vulnerabilities CVE history''"

definition tail_P2 :: string where
  "tail_P2 = ''GDPR compliance data processing agreement privacy policy''"

definition tail_G0 :: string where
  "tail_G0 = ''security posture assessment encryption access controls infrastructure. Analyse their security architecture, encryption standards, and access control mechanisms.''"

definition tail_G1 :: string where
  "tail_G1 = ''vendor risk compliance status regulatory actions enforcement. Evaluate their compliance posture across ISO 27001, SOC 2, GDPR, and any regulatory enforcement actions.''"

definition tail_G2 :: string where
  "tail_G2 = ''service availability SLA disaster recovery redundancy architecture''"

definition rest_G2 :: string where
  "rest_G2 = ''Assess their availability guarantees, redundancy, and disaster recovery capabilities.''"

definition tail_X0 :: string where
  "tail_X0 = ''security incidents criticism concerns vulnerabilities 2024 2025 2026. What are the most significant security concerns, incidents, or criticisms? Be thorough and unbiased.''"

definition tail_X1 :: string where
  "tail_X1 = ''enforcement actions fines regulatory investigations GDPR ICO FTC. Has this company faced any regulatory enforcement, fines, or investigations?''"

definition tail_X2 :: string where
  "tail_X2 = ''alternatives comparison security weaknesses limitations''"

definition rest_X2 :: string where
  "rest_X2 = ''What are the known security weaknesses or limitations compared to alternatives?''"


text \<open>
  Trimming and lower-casing as the specification words them, by code points: white space
  is U+0009 to U+000D, U+0020 and U+00A0; the capital letters are U+0041 to U+005A and
  U+00C0 to U+00DE without the multiplication sign U+00D7, and the small letter of each
  is 32 above it.
\<close>

definition white_space :: "char \<Rightarrow> bool" where
  "white_space c \<longleftrightarrow> (of_char c :: nat) \<in> {9, 10, 11, 12, 13, 32, 160}"

definition lower_case :: "char \<Rightarrow> char" where
  "lower_case c =
     (let n = of_char c :: nat in
      if (65 \<le> n \<and> n \<le> 90) \<or> (192 \<le> n \<and> n \<le> 222 \<and> n \<noteq> 215) then char_of (n + 32) else c)"

definition trim_lowercase :: "string \<Rightarrow> string" where
  "trim_lowercase s = map lower_case (rev (dropWhile white_space (rev (dropWhile white_space s))))"

text \<open>
  The citations of a list of results on received bodies: the strings that the loop over
  the sources meets, in its order.
\<close>

definition strings_of :: "json list \<Rightarrow> string list" where
  "strings_of items = concat (map (\<lambda>v. case v of JStr s \<Rightarrow> [s] | _ \<Rightarrow> []) items)"

definition citations_of :: "RuntimeResult list \<Rightarrow> string list" where
  "citations_of rs =
     concat (map (\<lambda>r. case iterate (sources r) of Inl err \<Rightarrow> [] | Inr items \<Rightarrow> strings_of items) rs)"

text \<open>
  A body of the declared type as the JSON value it is received as: an absent field is
  an absent key. Environments, runs and results follow.
\<close>

definition embed_message :: "chat_message \<Rightarrow> json" where
  "embed_message m = JObj (case msg_content m of None \<Rightarrow> [] | Some s \<Rightarrow> [(''content'', JStr s)])"

definition embed_choice :: "chat_choice \<Rightarrow> json" where
  "embed_choice c =
     JObj (case choice_message c of None \<Rightarrow> [] | Some m \<Rightarrow> [(''message'', embed_message m)])"

definition embed_part :: "gemini_part \<Rightarrow> json" where
  "embed_part p = JObj (case part_text p of None \<Rightarrow> [] | Some s \<Rightarrow> [(''text'', JStr s)])"

definition embed_content :: "gemini_content \<Rightarrow> json" where
  "embed_content k =
     JObj (case content_parts k of None \<Rightarrow> [] | Some ps \<Rightarrow> [(''parts'', JArr (map embed_part ps))])"

definition embed_candidate :: "gemini_candidate \<Rightarrow> json" where
  "embed_candidate c =
     JObj (case candidate_content c of None \<Rightarrow> [] | Some k \<Rightarrow> [(''content'', embed_content k)])"

definition embed_data :: "response_data \<Rightarrow> json" where
  "embed_data d =
     JObj ((case choices d of None \<Rightarrow> [] | Some cs \<Rightarrow> [(''choices'', JArr (map embed_choice cs))])
         @ (case citations d of None \<Rightarrow> [] | Some cs \<Rightarrow> [(''citations'', JArr (map JStr cs))])
         @ (case candidates d of None \<Rightarrow> []
            | Some cs \<Rightarrow> [(''candidates'', JArr (map embed_candidate cs))]))"

fun embed_body :: "json_body \<Rightarrow> json" where
  "embed_body JsonNull = JNull"
| "embed_body (JsonObject d) = embed_data d"

definition embed_response :: "http_response \<Rightarrow> json response" where
  "embed_response r =
     \<lparr>resp_ok = resp_ok r, resp_status = resp_status r, resp_text = resp_text r,
      resp_json = map_sum id embed_body (resp_json r)\<rparr>"

definition embed_env :: "call_env \<Rightarrow> json env" where
  "embed_env e = \<lparr>fetch_result = map_sum id embed_response (fetch_result e), elapsed = elapsed e\<rparr>"

definition embed_run :: "world \<Rightarrow> json run" where
  "embed_run w =
     \<lparr>call = (\<lambda>i. embed_env (call w i)), collect_elapsed = collect_elapsed w,
      total_elapsed = total_elapsed w\<rparr>"

definition embed_result :: "ResearchResult \<Rightarrow> RuntimeResult" where
  "embed_result r =
     \<lparr>provider = provider r, query = query r, content = JStr (content r),
      sources = JArr (map JStr (sources r)), success = success r, error = error r,
      durationMs = durationMs r\<rparr>"

definition embed_aggregated :: "AggregatedResults \<Rightarrow> RuntimeResult aggregated_results" where
  "embed_aggregated a =
     \<lparr>results = map embed_result (results a), totalDurationMs = totalDurationMs a,
      providersUsed = providersUsed a, allSources = allSources a,
      successCount = successCount a, failureCount = failureCount a\<rparr>"






definition body_with_citations :: "json \<Rightarrow> json" where
  "body_with_citations c =
     JObj [(''choices'', JArr [JObj [(''message'', JObj [(''content'', JStr ''Found certifications'')])]]),
           (''citations'', c)]"

definition citation_world :: "json \<Rightarrow> json run" where
  "citation_world c =
     \<lparr>call = (\<lambda>i. \<lparr>fetch_result = Inr \<lparr>resp_ok = True, resp_status = 200, resp_text = Inr [],
                resp_json = Inr (body_with_citations c)\<rparr>, elapsed = 800\<rparr>),
      collect_elapsed = (\<lambda>i. 900), total_elapsed = 1000\<rparr>"

text \<open>
  Citations that differ in letters and white space outside ASCII: a capital E with acute
  accent against the small one, with a no-break space in front and a tab behind.
\<close>

definition cafe_upper :: string where
  "cafe_upper = ''https://acme.test/CAF'' @ [CHR 0xC9]"

definition cafe_padded :: string where
  "cafe_padded = [CHR 0xA0] @ ''https://acme.test/caf'' @ [CHR 0xE9, CHR 0x09]"

definition cafe_lower :: string where
  "cafe_lower = ''https://acme.test/caf'' @ [CHR 0xE9]"

definition latin1_world :: world where
  "latin1_world =
     \<lparr>call = (\<lambda>i. \<lparr>fetch_result = Inr \<lparr>resp_ok = True, resp_status = 200, resp_text = Inr [],
                resp_json = Inr (JsonObject \<lparr>choices = Some [\<lparr>choice_message = Some \<lparr>msg_content = Some ''Found certifications''\<rparr>\<rparr>],
                   citations = Some (if i = 0 then [cafe_upper, ''https://acme.test/soc2'']
                                     else [cafe_padded, ''https://acme.test/iso'']),
                   candidates = None\<rparr>)\<rparr>,
              elapsed = 800\<rparr>),
      collect_elapsed = (\<lambda>i. 900), total_elapsed = 1000\<rparr>"

section \<open>Facts about the provider clients\<close>

lemma perplexity_search_Inr: "\<exists>r. perplexity_search k q t env = Inr r"
  by (simp add: perplexity_search_def split: sum.split)

lemma gemini_search_Inr: "\<exists>r. gemini_search k q t env = Inr r"
  by (simp add: gemini_search_def split: sum.split)

lemma grok_search_Inr: "\<exists>r. grok_search k q t env = Inr r"
  by (simp add: grok_search_def split: sum.split)

lemma perplexity_search_fields:
  "perplexity_search k q t env = Inr r \<Longrightarrow>
   provider r = perplexity_name \<and> query r = q \<and> (success r \<longleftrightarrow> \<not> call_fails env) \<and>
   (\<not> success r \<longrightarrow> content r = [] \<and> sources r = [] \<and> error r \<noteq> None)"
  by (auto simp: perplexity_search_def perplexity_try_def call_fails_def
      split: sum.splits if_splits json_body.splits)

lemma gemini_search_fields:
  "gemini_search k q t env = Inr r \<Longrightarrow>
   provider r = gemini_name \<and> query r = q \<and> (success r \<longleftrightarrow> \<not> call_fails env) \<and> sources r = [] \<and>
   (\<not> success r \<longrightarrow> content r = [] \<and> error r \<noteq> None)"
  by (auto simp: gemini_search_def gemini_try_def call_fails_def
      split: sum.splits if_splits json_body.splits)

lemma grok_search_fields:
  "grok_search k q t env = Inr r \<Longrightarrow>
   provider r = grok_name \<and> query r = q \<and> (success r \<longleftrightarrow> \<not> call_fails env) \<and> sources r = [] \<and>
   (\<not> success r \<longrightarrow> content r = [] \<and> error r \<noteq> None)"
  by (auto simp: grok_search_def grok_try_def call_fails_def
      split: sum.splits if_splits json_body.splits)

section \<open>Facts about the orchestrator\<close>

lemma fold_push_tasks: "fold (\<lambda>q tasks. tasks @ [(p, q)]) qs acc = acc @ map (Pair p) qs"
  by (induction qs arbitrary: acc) simp_all

lemma fold_build_tasks:
  "fold (\<lambda>(p, providerQueries) tasks. fold (\<lambda>q tasks. tasks @ [(p, q)]) providerQueries tasks) ps acc
     = acc @ concat (map (\<lambda>(p, qs). map (Pair p) qs) ps)"
  by (induction ps arbitrary: acc) (simp_all add: fold_push_tasks split_beta)

lemma build_tasks_concat: "build_tasks ps = concat (map (\<lambda>(p, qs). map (Pair p) qs) ps)"
  by (simp add: build_tasks_def fold_build_tasks)

lemma length_settle_all: "length (settle_all tasks tmo w) = length tasks"
  by (simp add: settle_all_def)

lemma length_collect_results: "length (collect_results tasks w settled) = length settled"
  by (simp add: collect_results_def)

lemma results_conductResearchWith:
  "results (conductResearchWith ps tmo w)
     = collect_results (build_tasks ps) w (settle_all (build_tasks ps) tmo w)"
  by (simp add: conductResearchWith_def Let_def)

lemma length_results: "length (results (conductResearchWith ps tmo w)) = length (build_tasks ps)"
  by (simp add: results_conductResearchWith length_collect_results length_settle_all)

lemma settle_all_nth:
  "i < length tasks \<Longrightarrow>
   settle_all tasks tmo w ! i = search (fst (tasks ! i)) (snd (tasks ! i)) tmo (call w i)"
  by (simp add: settle_all_def nth_enumerate_eq split_beta)

lemma collect_results_nth:
  "i < length settled \<Longrightarrow>
   collect_results tasks w settled ! i
     = (case settled ! i of Inr v \<Rightarrow> v
        | Inl reason \<Rightarrow> synthesized (tasks ! i) reason (collect_elapsed w i))"
  by (simp add: collect_results_def nth_enumerate_eq synthesized_def split: sum.split)

lemma results_nth:
  "i < length (build_tasks ps) \<Longrightarrow>
   results (conductResearchWith ps tmo w) ! i
     = (case search (fst (build_tasks ps ! i)) (snd (build_tasks ps ! i)) tmo (call w i) of
          Inr v \<Rightarrow> v
        | Inl reason \<Rightarrow> synthesized (build_tasks ps ! i) reason (collect_elapsed w i))"
  by (simp add: results_conductResearchWith collect_results_nth length_settle_all settle_all_nth)

lemma length_concat_const:
  "\<forall>(p, qs) \<in> set ps. length qs = Q \<Longrightarrow>
   length (concat (map (\<lambda>(p, qs). map (Pair p) qs) ps)) = length ps * Q"
  by (induction ps) auto

lemma counts_conductResearchWith:
  "successCount (conductResearchWith ps tmo w) = length (filter success (results (conductResearchWith ps tmo w)))"
  "failureCount (conductResearchWith ps tmo w) = length (filter (\<lambda>r. \<not> success r) (results (conductResearchWith ps tmo w)))"
  by (simp_all add: conductResearchWith_def Let_def)

lemma allSources_conductResearchWith:
  "allSources (conductResearchWith ps tmo w) = collect_sources (results (conductResearchWith ps tmo w))"
  by (simp add: conductResearchWith_def Let_def)

lemma collect_results_all_fail:
  assumes "\<forall>outcome \<in> set settled. task_fails outcome"
  shows "\<forall>r \<in> set (collect_results tasks w settled). \<not> success r"
proof
  fix r
  assume "r \<in> set (collect_results tasks w settled)"
  then obtain i where i: "i < length settled" and r: "r = collect_results tasks w settled ! i"
    by (auto simp: in_set_conv_nth length_collect_results)
  from i assms have "task_fails (settled ! i)"
    by simp
  with i r show "\<not> success r"
    by (simp add: collect_results_nth task_fails_def synthesized_def split: sum.splits)
qed

section \<open>Facts about the deduplication loop\<close>

lemma fold_sources_concat:
  "fold (\<lambda>r st. fold dedup_step (sources r) st) rs st = fold dedup_step (concat (map sources rs)) st"
  by (induction rs arbitrary: st) simp_all

lemma filter_upt_Suc:
  "filter P [0..<Suc n] = (if P 0 then [0] else []) @ map Suc (filter (\<lambda>i. P (Suc i)) [0..<n])"
proof -
  have "[0..<Suc n] = 0 # map Suc [0..<n]"
    by (simp add: upt_conv_Cons map_Suc_upt del: upt_Suc)
  then show ?thesis
    by (simp add: filter_map comp_def del: upt_Suc)
qed

lemma fold_dedup_step:
  "fst (fold dedup_step xs (acc, seen))
     = acc @ map (nth xs)
         (filter (\<lambda>i. normalise (xs ! i) \<notin> seen \<and> (\<forall>j<i. normalise (xs ! j) \<noteq> normalise (xs ! i)))
            [0..<length xs])"
proof (induction xs arbitrary: acc seen)
  case Nil
  then show ?case by simp
next
  case (Cons x xs)
  show ?case
  proof (cases "normalise x \<in> seen")
    case True
    have eq: "(\<lambda>i. normalise (xs ! i) \<notin> seen \<and> (\<forall>j<i. normalise (xs ! j) \<noteq> normalise (xs ! i)))
            = (\<lambda>i. normalise (xs ! i) \<notin> seen \<and> normalise x \<noteq> normalise (xs ! i) \<and>
                   (\<forall>j<i. normalise (xs ! j) \<noteq> normalise (xs ! i)))"
      using True by auto
    have "fst (fold dedup_step (x # xs) (acc, seen)) = fst (fold dedup_step xs (acc, seen))"
      using True by (simp add: dedup_step_def)
    also have "\<dots> = acc @ map (nth xs)
         (filter (\<lambda>i. normalise (xs ! i) \<notin> seen \<and> (\<forall>j<i. normalise (xs ! j) \<noteq> normalise (xs ! i)))
            [0..<length xs])"
      by (rule Cons.IH)
    finally show ?thesis
      using True
      by (simp add: filter_upt_Suc All_less_Suc2 comp_def eq [symmetric] del: upt_Suc)
  next
    case False
    have "fst (fold dedup_step (x # xs) (acc, seen))
            = fst (fold dedup_step xs (acc @ [x], insert (normalise x) seen))"
      using False by (simp add: dedup_step_def)
    also have "\<dots> = (acc @ [x]) @ map (nth xs)
         (filter (\<lambda>i. normalise (xs ! i) \<notin> insert (normalise x) seen \<and>
                      (\<forall>j<i. normalise (xs ! j) \<noteq> normalise (xs ! i)))
            [0..<length xs])"
      by (rule Cons.IH)
    finally show ?thesis
      using False
      by (simp add: filter_upt_Suc All_less_Suc2 comp_def del: upt_Suc)
         (metis (mono_tags, lifting) filter_cong)
  qed
qed

lemma collect_sources_first_seen:
  "collect_sources rs
     = map (nth (concat (map sources rs)))
         (filter (\<lambda>i. \<forall>j<i. normalise (concat (map sources rs) ! j) \<noteq> normalise (concat (map sources rs) ! i))
            [0..<length (concat (map sources rs))])"
  by (simp add: collect_sources_def fold_sources_concat fold_dedup_step)

lemma set_collect_sources: "set (collect_sources rs) \<subseteq> set (concat (map sources rs))"
  unfolding collect_sources_first_seen by (auto simp del: set_concat)

lemma not_in_earlier:
  "i \<le> length xs \<Longrightarrow> f y \<notin> f ` set (take i xs) \<longleftrightarrow> (\<forall>j<i. f (xs ! j) \<noteq> f y)"
  by (simp add: nth_image [symmetric] image_iff) (metis atLeastLessThan_iff zero_le)

lemma collect_sources_eq_first_seen: "collect_sources rs = first_seen (concat (map sources rs))"
  unfolding collect_sources_first_seen first_seen_def
  by (rule arg_cong [where f = "map _"], rule filter_cong) (auto simp: not_in_earlier)

lemma first_seen_distinct: "distinct (map normalise (first_seen srcs))"
proof -
  let ?P = "\<lambda>i. normalise (srcs ! i) \<notin> normalise ` set (take i srcs)"
  let ?is = "filter ?P [0..<length srcs]"
  have inj: "inj_on (\<lambda>i. normalise (srcs ! i)) (set ?is)"
  proof (rule inj_onI)
    fix i k
    assume i: "i \<in> set ?is" and k: "k \<in> set ?is"
      and eq: "normalise (srcs ! i) = normalise (srcs ! k)"
    from i have pi: "\<forall>j<i. normalise (srcs ! j) \<noteq> normalise (srcs ! i)" and li: "i < length srcs"
      by (auto simp: not_in_earlier)
    from k have pk: "\<forall>j<k. normalise (srcs ! j) \<noteq> normalise (srcs ! k)" and lk: "k < length srcs"
      by (auto simp: not_in_earlier)
    show "i = k"
    proof (rule ccontr)
      assume "i \<noteq> k"
      then consider "i < k" | "k < i" by linarith
      then show False
        using pi pk eq by cases auto
    qed
  qed
  have "distinct (map (\<lambda>i. normalise (srcs ! i)) ?is)"
    using inj by (simp add: distinct_map)
  then show ?thesis
    by (simp add: first_seen_def comp_def)
qed

lemma first_seen_keys: "normalise ` set (first_seen srcs) = normalise ` set srcs"
proof
  show "normalise ` set (first_seen srcs) \<subseteq> normalise ` set srcs"
    by (auto simp: first_seen_def)
next
  show "normalise ` set srcs \<subseteq> normalise ` set (first_seen srcs)"
  proof
    fix k
    assume "k \<in> normalise ` set srcs"
    then obtain i where i: "i < length srcs" "normalise (srcs ! i) = k"
      by (auto simp: in_set_conv_nth)
    define m where "m = (LEAST j. j < length srcs \<and> normalise (srcs ! j) = k)"
    have m: "m < length srcs \<and> normalise (srcs ! m) = k"
      unfolding m_def using i by (intro LeastI [where P = "\<lambda>j. j < length srcs \<and> normalise (srcs ! j) = k"]) simp
    have least: "\<forall>j<m. normalise (srcs ! j) \<noteq> k"
    proof (intro allI impI notI)
      fix j assume "j < m" "normalise (srcs ! j) = k"
      with m have "j < length srcs \<and> normalise (srcs ! j) = k" by simp
      then have "m \<le> j" unfolding m_def by (rule Least_le)
      with \<open>j < m\<close> show False by simp
    qed
    have "srcs ! m \<in> set (first_seen srcs)"
      using m least by (auto simp: first_seen_def not_in_earlier)
    with m show "k \<in> normalise ` set (first_seen srcs)"
      by (metis imageI)
  qed
qed

section \<open>Facts about a run with the three provider clients\<close>

lemma tasks_conductResearch:
  "build_tasks (provider_table v cfg s) =
     map (Pair (PerplexityProvider (perplexityApiKey cfg))) (perplexity (generateQueries v s))
   @ map (Pair (GeminiProvider (googleApiKey cfg))) (gemini (generateQueries v s))
   @ map (Pair (GrokProvider (xaiApiKey cfg))) (grok (generateQueries v s))"
  by (simp add: build_tasks_concat provider_table_def Let_def)

lemma length_queries:
  "length (perplexity (generateQueries v s)) = 3"
  "length (gemini (generateQueries v s)) = 3"
  "length (grok (generateQueries v s)) = 3"
  by (simp_all add: generateQueries_def Let_def)

lemma length_tasks_conductResearch: "length (build_tasks (provider_table v cfg s)) = 9"
  by (simp add: tasks_conductResearch length_queries)

lemma task_provider_conductResearch:
  "i < 9 \<Longrightarrow>
   fst (build_tasks (provider_table v cfg s) ! i)
     = (if i < 3 then PerplexityProvider (perplexityApiKey cfg)
        else if i < 6 then GeminiProvider (googleApiKey cfg)
        else GrokProvider (xaiApiKey cfg))"
  by (simp add: tasks_conductResearch nth_append length_queries)

lemma outcome_conductResearch:
  assumes "i < 9"
  shows "\<exists>r. settle_all (build_tasks (provider_table v cfg s)) tmo w ! i = Inr r \<and>
             (success r \<longleftrightarrow> \<not> call_fails (call w i)) \<and>
             provider r = name (fst (build_tasks (provider_table v cfg s) ! i)) \<and>
             query r = snd (build_tasks (provider_table v cfg s) ! i) \<and>
             (provider r = perplexity_name \<or> sources r = [])"
proof -
  let ?tasks = "build_tasks (provider_table v cfg s)"
  have nth: "settle_all ?tasks tmo w ! i = search (fst (?tasks ! i)) (snd (?tasks ! i)) tmo (call w i)"
    using assms by (simp add: settle_all_nth length_tasks_conductResearch)
  consider "i < 3" | "3 \<le> i" "i < 6" | "6 \<le> i"
    by linarith
  then show ?thesis
  proof cases
    case 1
    then have p: "fst (?tasks ! i) = PerplexityProvider (perplexityApiKey cfg)"
      using assms by (simp add: task_provider_conductResearch)
    obtain r where r: "perplexity_search (perplexityApiKey cfg) (snd (?tasks ! i)) tmo (call w i) = Inr r"
      using perplexity_search_Inr by blast
    with perplexity_search_fields [OF r] show ?thesis
      by (simp add: nth p PerplexityProvider_def)
  next
    case 2
    then have p: "fst (?tasks ! i) = GeminiProvider (googleApiKey cfg)"
      using assms by (simp add: task_provider_conductResearch)
    obtain r where r: "gemini_search (googleApiKey cfg) (snd (?tasks ! i)) tmo (call w i) = Inr r"
      using gemini_search_Inr by blast
    with gemini_search_fields [OF r] show ?thesis
      by (simp add: nth p GeminiProvider_def)
  next
    case 3
    then have p: "fst (?tasks ! i) = GrokProvider (xaiApiKey cfg)"
      using assms by (simp add: task_provider_conductResearch)
    obtain r where r: "grok_search (xaiApiKey cfg) (snd (?tasks ! i)) tmo (call w i) = Inr r"
      using grok_search_Inr by blast
    with grok_search_fields [OF r] show ?thesis
      by (simp add: nth p GrokProvider_def)
  qed
qed

lemma conductResearch_With:
  "conductResearch v cfg s w
     = conductResearchWith (provider_table v cfg s) (case timeoutMs cfg of None \<Rightarrow> 90000 | Some t \<Rightarrow> t) w"
  by (simp add: conductResearch_def)

lemma result_conductResearch:
  assumes "i < 9"
  shows "(success (results (conductResearch v cfg s w) ! i) \<longleftrightarrow> \<not> call_fails (call w i)) \<and>
         provider (results (conductResearch v cfg s w) ! i)
           = name (fst (build_tasks (provider_table v cfg s) ! i)) \<and>
         query (results (conductResearch v cfg s w) ! i)
           = snd (build_tasks (provider_table v cfg s) ! i) \<and>
         (provider (results (conductResearch v cfg s w) ! i) = perplexity_name \<or>
          sources (results (conductResearch v cfg s w) ! i) = [])"
proof -
  let ?tmo = "case timeoutMs cfg of None \<Rightarrow> 90000 | Some t \<Rightarrow> t"
  obtain r where r: "settle_all (build_tasks (provider_table v cfg s)) ?tmo w ! i = Inr r"
    and p: "(success r \<longleftrightarrow> \<not> call_fails (call w i)) \<and>
             provider r = name (fst (build_tasks (provider_table v cfg s) ! i)) \<and>
             query r = snd (build_tasks (provider_table v cfg s) ! i) \<and>
             (provider r = perplexity_name \<or> sources r = [])"
    using outcome_conductResearch [OF assms] by blast
  have "results (conductResearch v cfg s w) ! i = r"
    using assms r
    by (simp add: conductResearch_With results_conductResearchWith collect_results_nth
        length_settle_all length_tasks_conductResearch)
  with p show ?thesis by blast
qed

lemma length_results_conductResearch: "length (results (conductResearch v cfg s w)) = 9"
  by (simp add: conductResearch_With length_results length_tasks_conductResearch)

text \<open>
  With every body at its declared type the orchestrator returns exactly one result per
  task: the tasks are the flattening of the provider table, provider-major and
  query-minor, so a table of P providers with Q queries each gives P * Q results; the
  result at index i is the outcome of the task at index i, whatever the order of
  completion. conductResearch returns 9 results: those of the three Perplexity queries,
  then Gemini's, then Grok's.
\<close>

lemma results_in_dispatch_order:
  "length (results (conductResearchWith ps tmo w)) = length (build_tasks ps) \<and>
   build_tasks ps = concat (map (\<lambda>(p, qs). map (Pair p) qs) ps) \<and>
   ((\<forall>(p, qs) \<in> set ps. length qs = Q) \<longrightarrow>
      length (results (conductResearchWith ps tmo w)) = length ps * Q) \<and>
   (\<forall>i < length (build_tasks ps).
      results (conductResearchWith ps tmo w) ! i
        = (case search (fst (build_tasks ps ! i)) (snd (build_tasks ps ! i)) tmo (call w i) of
             Inr v \<Rightarrow> v
           | Inl reason \<Rightarrow> synthesized (build_tasks ps ! i) reason (collect_elapsed w i))) \<and>
   length (results (conductResearch v cfg s w)) = 9 \<and>
   map (\<lambda>r. (provider r, query r)) (results (conductResearch v cfg s w))
     = map (Pair ''Perplexity'') (perplexity (generateQueries v s))
       @ map (Pair ''Gemini'') (gemini (generateQueries v s))
       @ map (Pair ''Grok'') (grok (generateQueries v s))"
proof (intro conjI impI allI)
  show "length (results (conductResearchWith ps tmo w)) = length (build_tasks ps)"
    by (rule length_results)
  show "build_tasks ps = concat (map (\<lambda>(p, qs). map (Pair p) qs) ps)"
    by (rule build_tasks_concat)
  show "length (results (conductResearchWith ps tmo w)) = length ps * Q"
    if "\<forall>(p, qs) \<in> set ps. length qs = Q"
    using that by (simp only: length_results build_tasks_concat length_concat_const)
  show "results (conductResearchWith ps tmo w) ! i
        = (case search (fst (build_tasks ps ! i)) (snd (build_tasks ps ! i)) tmo (call w i) of
             Inr v \<Rightarrow> v
           | Inl reason \<Rightarrow> synthesized (build_tasks ps ! i) reason (collect_elapsed w i))"
    if "i < length (build_tasks ps)" for i
    using that by (rule results_nth)
  show "length (results (conductResearch v cfg s w)) = 9"
    by (rule length_results_conductResearch)
  let ?rs = "results (conductResearch v cfg s w)"
  let ?tasks = "build_tasks (provider_table v cfg s)"
  have "map (\<lambda>r. (provider r, query r)) ?rs = map (\<lambda>t. (name (fst t), snd t)) ?tasks"
  proof (rule nth_equalityI)
    show "length (map (\<lambda>r. (provider r, query r)) ?rs) = length (map (\<lambda>t. (name (fst t), snd t)) ?tasks)"
      by (simp add: length_results_conductResearch length_tasks_conductResearch)
    fix i assume "i < length (map (\<lambda>r. (provider r, query r)) ?rs)"
    then have i: "i < 9"
      by (simp add: length_results_conductResearch)
    then show "map (\<lambda>r. (provider r, query r)) ?rs ! i = map (\<lambda>t. (name (fst t), snd t)) ?tasks ! i"
      using result_conductResearch [OF i, of v cfg s w]
      by (simp add: length_results_conductResearch length_tasks_conductResearch)
  qed
  also have "\<dots> = map (Pair ''Perplexity'') (perplexity (generateQueries v s))
       @ map (Pair ''Gemini'') (gemini (generateQueries v s))
       @ map (Pair ''Grok'') (grok (generateQueries v s))"
    by (simp add: tasks_conductResearch PerplexityProvider_def GeminiProvider_def GrokProvider_def
        perplexity_name_def gemini_name_def grok_name_def)
  finally show "map (\<lambda>r. (provider r, query r)) ?rs
     = map (Pair ''Perplexity'') (perplexity (generateQueries v s))
       @ map (Pair ''Gemini'') (gemini (generateQueries v s))
       @ map (Pair ''Grok'') (grok (generateQueries v s))" .
qed

section \<open>Facts about the formatter\<close>

lemma fold_push_sources:
  "fold (\<lambda>src s. s @ [f src]) xs acc = acc @ map f xs"
  by (induction xs arbitrary: acc) simp_all

lemma push_result_lines: "push_result r sections = sections @ result_lines r"
  by (simp add: push_result_def result_lines_def fold_push_sources Let_def)

lemma fold_push_result: "fold push_result rs acc = acc @ concat (map result_lines rs)"
  by (induction rs arbitrary: acc) (simp_all add: push_result_lines)

lemma push_group_lines: "push_group (p, rs) sections = sections @ group_lines p rs"
  by (simp add: push_group_def group_lines_def fold_push_result)

lemma fold_push_group:
  "fold push_group gs acc = acc @ concat (map (\<lambda>(p, rs). group_lines p rs) gs)"
  by (induction gs arbitrary: acc) (auto simp: push_group_lines)

lemma set_values_snoc:
  "set_values (xs @ [x]) = (if x \<in> set (set_values xs) then set_values xs else set_values xs @ [x])"
  by (simp add: set_values_def)

lemma set_set_values: "set (set_values xs) = set xs"
proof (induction xs rule: rev_induct)
  case Nil
  then show ?case by (simp add: set_values_def)
next
  case (snoc x xs)
  then show ?case by (auto simp: set_values_snoc)
qed

lemma byProvider_snoc: "byProvider (rs @ [r]) = group_step r (byProvider rs)"
  by (simp add: byProvider_def)

lemma map_of_keyed: "k \<in> set ks \<Longrightarrow> map_of (map (\<lambda>p. (p, f p)) ks) k = Some (f k)"
  by (induction ks) auto

lemma map_of_keyed_None: "k \<notin> set ks \<Longrightarrow> map_of (map (\<lambda>p. (p, f p)) ks) k = None"
  by (induction ks) auto

lemma byProvider_groups:
  "byProvider rs
     = map (\<lambda>p. (p, filter (\<lambda>r. provider r = p) rs)) (set_values (map provider rs))"
proof (induction rs rule: rev_induct)
  case Nil
  then show ?case by (simp add: byProvider_def set_values_def)
next
  case (snoc r rs)
  let ?ks = "set_values (map provider rs)"
  let ?k = "provider r"
  let ?g = "\<lambda>xs p. (p, filter (\<lambda>x. provider x = p) xs)"
  have IH: "byProvider rs = map (?g rs) ?ks"
    by (rule snoc.IH)
  show ?case
  proof (cases "?k \<in> set ?ks")
    case True
    have look: "map_of (byProvider rs) ?k = Some (filter (\<lambda>x. provider x = ?k) rs)"
      unfolding IH using True by (rule map_of_keyed)
    have dom: "?k \<in> fst ` set (byProvider rs)"
      unfolding IH using True by force
    have "byProvider (rs @ [r])
            = map (\<lambda>(k', v'). if k' = ?k then (k', filter (\<lambda>x. provider x = ?k) rs @ [r]) else (k', v'))
                (byProvider rs)"
      using dom by (simp add: byProvider_snoc group_step_def look map_set_def)
    also have "\<dots> = map (?g (rs @ [r])) ?ks"
      unfolding IH by (simp add: comp_def)
    also have "\<dots> = map (?g (rs @ [r])) (set_values (map provider (rs @ [r])))"
      using True by (simp add: set_values_snoc)
    finally show ?thesis .
  next
    case False
    have look: "map_of (byProvider rs) ?k = None"
      unfolding IH using False by (rule map_of_keyed_None)
    have dom: "?k \<notin> fst ` set (byProvider rs)"
      unfolding IH using False by force
    have "\<forall>x \<in> set rs. provider x \<noteq> ?k"
      using False unfolding set_set_values by (metis image_eqI list.set_map)
    then have none: "filter (\<lambda>x. provider x = ?k) rs = []"
      by (simp add: filter_empty_conv)
    have others: "map (?g (rs @ [r])) ?ks = map (?g rs) ?ks"
      using False by (intro map_cong) auto
    have "byProvider (rs @ [r]) = byProvider rs @ [(?k, [r])]"
      using dom by (simp add: byProvider_snoc group_step_def look map_set_def)
    also have "\<dots> = map (?g (rs @ [r])) ?ks @ [?g (rs @ [r]) ?k]"
      unfolding IH others by (simp add: none)
    also have "\<dots> = map (?g (rs @ [r])) (set_values (map provider (rs @ [r])))"
      using False by (simp add: set_values_snoc)
    finally show ?thesis .
  qed
qed

lemma format_sections_groups:
  "format_sections rs
     = concat (map (\<lambda>p. group_lines p (filter (\<lambda>r. provider r = p) rs))
                 (set_values (map provider rs)))"
  by (simp add: format_sections_def fold_push_group byProvider_groups comp_def)

section \<open>Facts about the legal-suffix pattern and the templates\<close>

lemma lower_table_plain: "list_all (\<lambda>(a, b). plain a \<and> plain b) lower_table"
  by code_simp

lemma lower_char_cases: "lower_char c = c \<or> (c, lower_char c) \<in> set lower_table"
  by (auto simp: lower_char_def split: option.splits dest: map_of_SomeD)

lemma plain_lower_char: "plain (lower_char c) = plain c"
  using lower_char_cases [of c] lower_table_plain
  by (auto simp: list_all_iff)

lemma legal_lower_plain: "L \<in> set legal_suffixes \<Longrightarrow> L \<noteq> [] \<and> list_all plain L"
  by (auto simp: legal_suffixes_def plain_def is_space_def)

lemma legal_plain:
  assumes "toLowerCase suf \<in> set legal_suffixes"
  shows "suf \<noteq> []" and "\<forall>c \<in> set suf. plain c"
proof -
  from legal_lower_plain [OF assms] have ne: "toLowerCase suf \<noteq> []"
    and pl: "list_all plain (toLowerCase suf)"
    by simp_all
  from ne show "suf \<noteq> []"
    by (auto simp: toLowerCase_def)
  from pl show "\<forall>c \<in> set suf. plain c"
    by (simp add: toLowerCase_def list_all_iff plain_lower_char)
qed

lemma legal_no_proper_suffix:
  "a \<in> set legal_suffixes \<Longrightarrow> b \<in> set legal_suffixes \<Longrightarrow> suffix b a \<Longrightarrow> a = b"
  by (auto simp: legal_suffixes_def suffix_to_prefix)

lemma dropWhile_spaces_plain:
  "list_all is_space r \<Longrightarrow> suf \<noteq> [] \<Longrightarrow> plain (hd suf) \<Longrightarrow> dropWhile is_space (r @ suf) = suf"
  by (induction r) (auto simp: plain_def neq_Nil_conv)

lemma separator_matches:
  assumes sep: "is_separator sep" and suf: "toLowerCase suf \<in> set legal_suffixes"
  shows "suffix_matches (sep @ suf)"
proof -
  from legal_plain [OF suf] have ne: "suf \<noteq> []" and pl: "plain (hd suf)"
    by simp_all
  then obtain c cs where c: "suf = c # cs" "\<not> is_space c" "c \<noteq> CHR '',''"
    by (auto simp: neq_Nil_conv plain_def)
  show ?thesis
  proof (cases sep)
    case Nil
    then show ?thesis
      using suf c by (simp add: suffix_matches_def)
  next
    case (Cons d r)
    with sep have r: "list_all is_space r" and d: "d = CHR '','' \<or> is_space d"
      by (simp_all add: is_separator_def)
    have dw: "dropWhile is_space (r @ suf) = suf"
      using r ne pl by (rule dropWhile_spaces_plain)
    show ?thesis
      using d suf dw by (auto simp: Cons suffix_matches_def)
  qed
qed

lemma strip_suffix_match: "suffix_matches t \<Longrightarrow> strip_suffix t = []"
  by (cases t) simp_all

lemma spaces_separator: "list_all is_space xs \<Longrightarrow> is_separator xs"
  by (cases xs) (simp_all add: is_separator_def)

text \<open>What a match removes in front of the word is a separator.\<close>

lemma suffix_matches_decomp:
  assumes "suffix_matches t"
  obtains p w where "t = p @ w" "is_separator p" "toLowerCase w \<in> set legal_suffixes"
proof -
  define t1 where "t1 = (case t of [] \<Rightarrow> [] | c # r \<Rightarrow> if c = CHR '','' then r else c # r)"
  define w where "w = dropWhile is_space t1"
  have w: "toLowerCase w \<in> set legal_suffixes"
    using assms by (simp add: suffix_matches_def t1_def w_def Let_def)
  have sp: "list_all is_space (takeWhile is_space t1)"
    by (auto simp: list_all_iff dest: set_takeWhileD)
  have t1: "t1 = takeWhile is_space t1 @ w"
    by (simp add: w_def)
  have "t = t1 \<or> t = CHR '','' # t1"
    by (cases t) (simp_all add: t1_def)
  then consider "t = t1" | "t = CHR '','' # t1"
    by blast
  then show ?thesis
  proof cases
    case 1
    with t1 have "t = takeWhile is_space t1 @ w" by simp
    moreover have "is_separator (takeWhile is_space t1)"
      using sp by (rule spaces_separator)
    ultimately show ?thesis using w by (rule that)
  next
    case 2
    with t1 have "t = (CHR '','' # takeWhile is_space t1) @ w" by simp
    moreover have "is_separator (CHR '','' # takeWhile is_space t1)"
      using sp by (simp add: is_separator_def)
    ultimately show ?thesis using w by (rule that)
  qed
qed

text \<open>In front of a legal suffix, the pattern matches exactly the separators.\<close>

lemma match_iff_separator:
  assumes suf: "toLowerCase suf \<in> set legal_suffixes"
  shows "suffix_matches (x @ suf) \<longleftrightarrow> is_separator x"
proof
  assume "is_separator x"
  then show "suffix_matches (x @ suf)"
    using suf by (rule separator_matches)
next
  assume "suffix_matches (x @ suf)"
  then obtain p w where t: "x @ suf = p @ w" and p: "is_separator p"
    and w: "toLowerCase w \<in> set legal_suffixes"
    by (rule suffix_matches_decomp)
  from t consider u where "x = p @ u" "u @ suf = w" | u where "x @ u = p" "suf = u @ w"
    by (auto simp: append_eq_append_conv2)
  then have "p = x"
  proof cases
    case 1
    then have "suffix (toLowerCase suf) (toLowerCase w)"
      by (auto simp: toLowerCase_def suffix_def)
    with w suf have "toLowerCase w = toLowerCase suf"
      by (rule legal_no_proper_suffix)
    then have "length w = length suf"
      by (metis length_map toLowerCase_def)
    with 1 show ?thesis by auto
  next
    case 2
    then have "suffix (toLowerCase w) (toLowerCase suf)"
      by (auto simp: toLowerCase_def suffix_def)
    with suf w have "toLowerCase suf = toLowerCase w"
      by (rule legal_no_proper_suffix)
    then have "length suf = length w"
      by (metis length_map toLowerCase_def)
    with 2 show ?thesis by auto
  qed
  with p show "is_separator x" by simp
qed

lemma strip_separator_separator: "is_separator x \<Longrightarrow> strip_separator x = []"
proof (cases x)
  case Nil
  then show ?thesis by (simp add: strip_separator_def)
next
  case (Cons c r)
  assume "is_separator x"
  with Cons have c: "c = CHR '','' \<or> is_space c" and r: "\<forall>d \<in> set (rev r). is_space d"
    by (simp_all add: is_separator_def list_all_iff)
  have "dropWhile is_space (rev r @ [c]) = dropWhile is_space [c]"
    by (rule dropWhile_append2) (use r in blast)
  with c show ?thesis
    by (auto simp: Cons strip_separator_def)
qed

lemma strip_separator_Cons:
  assumes "\<not> is_separator (c # cs)"
  shows "strip_separator (c # cs) = c # strip_separator cs"
proof (cases "dropWhile is_space (rev cs)")
  case Nil
  then have all: "\<forall>d \<in> set (rev cs). is_space d"
    by (simp add: dropWhile_eq_Nil_conv)
  then have "list_all is_space cs"
    by (simp add: list_all_iff)
  with assms have c: "c \<noteq> CHR '',''" "\<not> is_space c"
    by (auto simp: is_separator_def)
  have "dropWhile is_space (rev cs @ [c]) = dropWhile is_space [c]"
    by (rule dropWhile_append2) (use all in blast)
  with c have "strip_separator (c # cs) = [c]"
    by (simp add: strip_separator_def)
  moreover have "strip_separator cs = []"
    unfolding strip_separator_def Nil by simp
  ultimately show ?thesis by simp
next
  case (Cons d r)
  then have "d \<in> set (dropWhile is_space (rev cs))" by simp
  then have d: "d \<in> set (rev cs)"
    by (rule set_dropWhileD)
  have nd: "\<not> is_space d"
    using Cons by (metis hd_dropWhile list.sel(1) list.distinct(1))
  have "dropWhile is_space (rev cs @ [c]) = dropWhile is_space (rev cs) @ [c]"
    using d nd by (auto intro: dropWhile_append1)
  with Cons show ?thesis
    by (simp add: strip_separator_def)
qed

lemma strip_suffix_separator:
  assumes suf: "toLowerCase suf \<in> set legal_suffixes"
  shows "strip_suffix (body @ suf) = strip_separator body"
proof (induction body)
  case Nil
  have "suffix_matches ([] @ suf)"
    using suf by (simp only: match_iff_separator) (simp add: is_separator_def)
  then show ?case
    by (simp add: strip_suffix_match strip_separator_def)
next
  case (Cons c cs)
  show ?case
  proof (cases "is_separator (c # cs)")
    case True
    then have "suffix_matches ((c # cs) @ suf)"
      using suf by (simp only: match_iff_separator)
    then have "strip_suffix ((c # cs) @ suf) = []"
      by (rule strip_suffix_match)
    with True show ?thesis
      by (simp add: strip_separator_separator)
  next
    case False
    then have "\<not> suffix_matches ((c # cs) @ suf)"
      using suf by (simp only: match_iff_separator) simp
    then have "strip_suffix ((c # cs) @ suf) = c # strip_suffix (cs @ suf)"
      by simp
    with False Cons.IH show ?thesis
      by (simp add: strip_separator_Cons)
  qed
qed

lemma shortName_suffix:
  "toLowerCase suf \<in> set legal_suffixes \<Longrightarrow> shortName (body @ suf) = trim (strip_separator body)"
  by (simp add: shortName_def strip_suffix_separator)

lemma dropWhile_hd: "xs \<noteq> [] \<Longrightarrow> \<not> P (hd xs) \<Longrightarrow> dropWhile P xs = xs"
  by (cases xs) simp_all

lemma trim_bare:
  assumes "bare_name nm"
  shows "trim nm = nm"
proof (cases nm)
  case Nil
  then show ?thesis by (simp add: trim_def)
next
  case (Cons c r)
  with assms have c: "\<not> is_space (hd nm)" and l: "\<not> is_space (last nm)" and ne: "nm \<noteq> []"
    by (simp_all add: bare_name_def plain_def)
  have front: "dropWhile is_space nm = nm"
    using ne c by (rule dropWhile_hd)
  have rear: "dropWhile is_space (rev nm) = rev nm"
    using ne l by (intro dropWhile_hd) (simp_all add: hd_rev)
  show ?thesis
    by (simp add: trim_def front rear)
qed

lemma strip_separator_bare:
  assumes nm: "bare_name nm" and sep: "is_separator sep"
  shows "strip_separator (nm @ sep) = nm"
proof -
  have "strip_separator (x @ sep) = x" if "x = [] \<or> plain (last x)" for x
    using that
  proof (induction x)
    case Nil
    then show ?case using sep by (simp add: strip_separator_separator)
  next
    case (Cons c cs)
    have ns: "\<not> is_separator ((c # cs) @ sep)"
    proof (cases "cs = []")
      case True
      with Cons.prems show ?thesis
        by (auto simp: is_separator_def plain_def)
    next
      case False
      with Cons.prems have "plain (last cs)" and "last cs \<in> set (cs @ sep)"
        by simp_all
      then show ?thesis
        by (auto simp: is_separator_def plain_def list_all_iff)
    qed
    have "cs = [] \<or> plain (last cs)"
      using Cons.prems by (auto split: if_splits)
    then have "strip_separator (cs @ sep) = cs"
      by (rule Cons.IH)
    with ns show ?case
      by (simp add: strip_separator_Cons)
  qed
  moreover have "nm = [] \<or> plain (last nm)"
    using nm by (auto simp: bare_name_def split: list.splits)
  ultimately show ?thesis by blast
qed

lemma shortName_strips:
  assumes nm: "bare_name nm" and sep: "is_separator sep"
    and suf: "toLowerCase suf \<in> set legal_suffixes"
  shows "shortName (nm @ sep @ suf) = nm"
  using shortName_suffix [OF suf, of "nm @ sep"] strip_separator_bare [OF nm sep] trim_bare [OF nm]
  by simp

lemma all_queries_forms:
  "all_queries (generateQueries v s)
     = [shortName v @ CHR '' '' # tail_P0,
        shortName v @ CHR '' '' # tail_P1,
        shortName v @ CHR '' '' # (tail_P2 @ serviceContext s),
        shortName v @ CHR '' '' # tail_G0,
        shortName v @ CHR '' '' # tail_G1,
        shortName v @ CHR '' '' # (tail_G2 @ serviceContext s @ CHR ''.'' # CHR '' '' # rest_G2),
        shortName v @ CHR '' '' # tail_X0,
        shortName v @ CHR '' '' # tail_X1,
        shortName v @ CHR '' '' # (tail_X2 @ serviceContext s @ CHR ''.'' # CHR '' '' # rest_X2)]"
  by (simp add: all_queries_def generateQueries_def Let_def tail_P0_def tail_P1_def tail_P2_def
      tail_G0_def tail_G1_def tail_G2_def rest_G2_def tail_X0_def tail_X1_def tail_X2_def rest_X2_def)

lemma clean_tail_P0: "clean tail_P0"
  by code_simp

lemma clean_tail_P1: "clean tail_P1"
  by code_simp

lemma clean_tail_P2: "clean tail_P2"
  by code_simp

lemma clean_tail_G0: "clean tail_G0"
  by code_simp

lemma clean_tail_G1: "clean tail_G1"
  by code_simp

lemma clean_tail_G2: "clean tail_G2"
  by code_simp

lemma clean_tail_G2_dot: "clean (tail_G2 @ ''.'')"
  by code_simp

lemma clean_rest_G2: "clean rest_G2"
  by code_simp

lemma clean_tail_X0: "clean tail_X0"
  by code_simp

lemma clean_tail_X1: "clean tail_X1"
  by code_simp

lemma clean_tail_X2: "clean tail_X2"
  by code_simp

lemma clean_tail_X2_dot: "clean (tail_X2 @ ''.'')"
  by code_simp

lemma clean_rest_X2: "clean rest_X2"
  by code_simp

lemmas clean_tails =
  clean_tail_P0 clean_tail_P1 clean_tail_P2 clean_tail_G0 clean_tail_G1
  clean_tail_G2 clean_tail_G2_dot clean_rest_G2 clean_tail_X0 clean_tail_X1
  clean_tail_X2 clean_tail_X2_dot clean_rest_X2

lemma sublist_toLowerCase: "sublist x w \<Longrightarrow> sublist (toLowerCase x) (toLowerCase w)"
  unfolding toLowerCase_def by (metis map_append sublist_appendI sublist_def)

lemma clean_no_suffix:
  "clean T \<Longrightarrow> toLowerCase suf \<in> set legal_suffixes \<Longrightarrow> \<not> sublist suf T"
  by (auto simp: clean_def list_all_iff dest: sublist_toLowerCase)

lemma sublist_split:
  assumes "c \<notin> set x"
  shows "sublist x (a @ c # b) \<longleftrightarrow> sublist x a \<or> sublist x b"
proof
  assume "sublist x (a @ c # b)"
  then consider "sublist x a" | "sublist x (c # b)"
    | x1 x2 where "x = x1 @ x2" "suffix x1 a" "prefix x2 (c # b)"
    by (auto simp: sublist_append)
  then show "sublist x a \<or> sublist x b"
  proof cases
    case 1
    then show ?thesis by simp
  next
    case 2
    then have "prefix x (c # b) \<or> sublist x b"
      by (simp add: sublist_Cons_right)
    moreover have "x = []" if "prefix x (c # b)"
      using that assms by (auto simp: prefix_Cons)
    ultimately show ?thesis by auto
  next
    case 3
    from 3(3) assms 3(1) have "x2 = []"
      by (auto simp: prefix_Cons)
    with 3 have "suffix x a" by simp
    then have "sublist x a" by (rule suffix_imp_sublist)
    then show ?thesis by simp
  qed
next
  assume "sublist x a \<or> sublist x b"
  then show "sublist x (a @ c # b)"
    by (auto simp: sublist_append sublist_Cons_right)
qed

lemma serviceContext_cases:
  "serviceContext s = [] \<or> (\<exists>t. serviceContext s = CHR '' '' # t)"
  by (simp add: serviceContext_def split: option.split)

lemma queries_start_with_shortName:
  "\<forall>q \<in> set (all_queries (generateQueries v s)). prefix (shortName v) q"
  by (simp add: all_queries_forms)

lemma queries_free_of_suffix:
  assumes suf: "toLowerCase suf \<in> set legal_suffixes"
    and sn: "\<not> sublist suf (shortName v)"
    and sc: "\<not> sublist suf (serviceContext s @ ''.'')"
  shows "\<forall>q \<in> set (all_queries (generateQueries v s)). \<not> sublist suf q"
proof -
  have sp: "CHR '' '' \<notin> set suf"
    using legal_plain(2) [OF suf] by (auto simp: plain_def is_space_def)
  note free = clean_tails [THEN clean_no_suffix, OF suf]
  note split = sublist_split [OF sp]
  have whole: "\<not> sublist suf (shortName v @ CHR '' '' # T)" if "\<not> sublist suf T" for T
    using sn that by (simp only: split simp_thms)
  have P2: "\<not> sublist suf (tail_P2 @ serviceContext s)"
    and G2: "\<not> sublist suf (tail_G2 @ serviceContext s @ CHR ''.'' # CHR '' '' # rest_G2)"
    and X2: "\<not> sublist suf (tail_X2 @ serviceContext s @ CHR ''.'' # CHR '' '' # rest_X2)"
  proof -
    from serviceContext_cases [of s]
    consider "serviceContext s = []" | t where "serviceContext s = CHR '' '' # t"
      by blast
    then have "\<not> sublist suf (tail_P2 @ serviceContext s) \<and>
        \<not> sublist suf (tail_G2 @ serviceContext s @ CHR ''.'' # CHR '' '' # rest_G2) \<and>
        \<not> sublist suf (tail_X2 @ serviceContext s @ CHR ''.'' # CHR '' '' # rest_X2)"
    proof cases
      case 1
      have "\<not> sublist suf ((tail_G2 @ ''.'') @ CHR '' '' # rest_G2)"
        by (simp only: split free simp_thms)
      moreover have "\<not> sublist suf ((tail_X2 @ ''.'') @ CHR '' '' # rest_X2)"
        by (simp only: split free simp_thms)
      ultimately show ?thesis
        using free by (simp add: 1)
    next
      case 2
      from sc have dot: "\<not> sublist suf (t @ ''.'')"
        by (simp add: 2 sublist_Cons_right)
      then have bare: "\<not> sublist suf t"
        by (auto simp: sublist_append)
      have a: "\<not> sublist suf (tail_P2 @ CHR '' '' # t)"
        by (simp only: split free bare simp_thms)
      have "\<not> sublist suf ((t @ ''.'') @ CHR '' '' # rest_G2)"
        by (simp only: split free dot simp_thms)
      have b: "\<not> sublist suf (tail_G2 @ CHR '' '' # (t @ ''.'') @ CHR '' '' # rest_G2)"
        by (simp only: split free dot simp_thms)
      have "\<not> sublist suf ((t @ ''.'') @ CHR '' '' # rest_X2)"
        by (simp only: split free dot simp_thms)
      have c: "\<not> sublist suf (tail_X2 @ CHR '' '' # (t @ ''.'') @ CHR '' '' # rest_X2)"
        by (simp only: split free dot simp_thms)
      from a b c show ?thesis
        by (simp add: 2)
    qed
    then show "\<not> sublist suf (tail_P2 @ serviceContext s)"
      and "\<not> sublist suf (tail_G2 @ serviceContext s @ CHR ''.'' # CHR '' '' # rest_G2)"
      and "\<not> sublist suf (tail_X2 @ serviceContext s @ CHR ''.'' # CHR '' '' # rest_X2)"
      by simp_all
  qed
  show ?thesis
    unfolding all_queries_forms
    using free P2 G2 X2 by (simp add: whole)
qed

lemma legal_not_in_stop:
  assumes "toLowerCase suf \<in> set legal_suffixes"
  shows "\<not> sublist suf ''.''"
proof
  assume "sublist suf ''.''"
  then have "length suf \<le> 1"
    by (auto dest: sublist_length_le)
  moreover have "\<forall>L \<in> set legal_suffixes. 3 \<le> length L"
    by (simp add: legal_suffixes_def)
  with assms have "3 \<le> length (toLowerCase suf)"
    by blast
  ultimately show False
    by (simp add: toLowerCase_def)
qed

lemma queries_contain_suffix:
  assumes suf: "toLowerCase suf \<in> set legal_suffixes"
    and occ: "sublist suf (shortName v) \<or> sublist suf (serviceContext s @ ''.'')"
  shows "\<exists>q \<in> set (all_queries (generateQueries v s)). sublist suf q"
proof -
  from occ consider "sublist suf (shortName v)" | "sublist suf (serviceContext s @ ''.'')"
    by blast
  then show ?thesis
  proof cases
    case 1
    then have "sublist suf (shortName v @ CHR '' '' # tail_P0)"
      by (simp add: sublist_append)
    then show ?thesis
      by (simp add: all_queries_forms)
  next
    case 2
    have "sublist (serviceContext s @ ''.'')
            ((shortName v @ CHR '' '' # tail_G2) @ (serviceContext s @ ''.'') @ CHR '' '' # rest_G2)"
      by (rule sublist_appendI)
    with 2 have "sublist suf
            ((shortName v @ CHR '' '' # tail_G2) @ (serviceContext s @ ''.'') @ CHR '' '' # rest_G2)"
      by (rule sublist_order.order_trans)
    then have "sublist suf
            (shortName v @ CHR '' '' # (tail_G2 @ serviceContext s @ CHR ''.'' # CHR '' '' # rest_G2))"
      by simp
    then show ?thesis
      by (simp add: all_queries_forms)
  qed
qed

lemma suffix_in_queries_iff:
  assumes suf: "toLowerCase suf \<in> set legal_suffixes"
  shows "(\<exists>q \<in> set (all_queries (generateQueries v s)). sublist suf q) \<longleftrightarrow>
         sublist suf (shortName v) \<or> sublist suf (serviceContext s @ ''.'')"
  using queries_free_of_suffix [OF suf, of v s] queries_contain_suffix [OF suf, of v s]
  by blast

section \<open>Facts about the normalisation of citations\<close>

lemma is_space_white_space: "is_space c = white_space c"
proof -
  have "\<forall>c. is_space c = white_space c"
    by code_simp
  then show ?thesis ..
qed

lemma lower_char_lower_case: "lower_char c = lower_case c"
proof -
  have "\<forall>c. lower_char c = lower_case c"
    by code_simp
  then show ?thesis ..
qed

lemma normalise_trim_lowercase: "normalise s = trim_lowercase s"
proof -
  have "is_space = white_space" "lower_char = lower_case"
    by (simp_all add: fun_eq_iff is_space_white_space lower_char_lower_case)
  then show ?thesis
    by (simp add: normalise_def trim_lowercase_def trim_def toLowerCase_def)
qed

lemma fold_dedup_first_seen: "fst (fold dedup_step xs ([], {})) = first_seen xs"
  using collect_sources_eq_first_seen [of "[\<lparr>provider = [], query = [], content = [], sources = xs,
      success = True, error = None, durationMs = 0\<rparr>]"]
  by (simp add: collect_sources_def)

section \<open>Facts about the clients and the orchestrator on the body as received\<close>




lemma scan_sources_Inr:
  "scan_sources items st = Inr st' \<Longrightarrow> items = map JStr (strings_of items) \<and> st' = fold dedup_step (strings_of items) st"
  by (induction items st rule: scan_sources.induct) (simp_all add: strings_of_def)

lemma scan_results_Inr:
  "scan_results rs st = Inr st' \<Longrightarrow> st' = fold dedup_step (citations_of rs) st"
proof (induction rs arbitrary: st)
  case Nil
  then show ?case by (simp add: citations_of_def)
next
  case (Cons r rs)
  from Cons.prems obtain items st1 where
    it: "iterate (sources r) = Inr items" and sc: "scan_sources items st = Inr st1"
    and rest: "scan_results rs st1 = Inr st'"
    by (auto split: sum.splits)
  have "st' = fold dedup_step (citations_of rs) st1"
    using rest by (rule Cons.IH)
  moreover have "st1 = fold dedup_step (strings_of items) st"
    using scan_sources_Inr [OF sc] by simp
  moreover have "citations_of (r # rs) = strings_of items @ citations_of rs"
    by (simp add: citations_of_def it)
  ultimately show ?case by simp
qed

lemma tasks_conductResearch_rt:
  "build_tasks (provider_table_rt v cfg s) =
     map (Pair (PerplexityProvider_rt (perplexityApiKey cfg))) (perplexity (generateQueries v s))
   @ map (Pair (GeminiProvider_rt (googleApiKey cfg))) (gemini (generateQueries v s))
   @ map (Pair (GrokProvider_rt (xaiApiKey cfg))) (grok (generateQueries v s))"
  by (simp add: build_tasks_concat provider_table_rt_def Let_def)

lemma length_tasks_conductResearch_rt: "length (build_tasks (provider_table_rt v cfg s)) = 9"
  by (simp add: tasks_conductResearch_rt length_queries)

lemma length_results_conductResearch_rt:
  assumes "conductResearch_rt v cfg s w = Inr agg"
  shows "length (results agg) = 9"
proof -
  let ?tmo = "case timeoutMs cfg of None \<Rightarrow> 90000 | Some t \<Rightarrow> t"
  let ?tasks = "build_tasks (provider_table_rt v cfg s)"
  from assms have "results agg = collect_results_rt ?tasks w (settle_all ?tasks ?tmo w)"
    by (auto simp: conductResearch_rt_def conductResearchWith_rt_def Let_def split: sum.splits)
  then show ?thesis
    by (simp add: collect_results_rt_def length_settle_all length_tasks_conductResearch_rt)
qed

lemma conductResearch_rt_With:
  "conductResearch_rt v cfg s w
     = conductResearchWith_rt (provider_table_rt v cfg s) (case timeoutMs cfg of None \<Rightarrow> 90000 | Some t \<Rightarrow> t) w"
  by (simp add: conductResearch_rt_def)

lemma allSources_conductResearchWith_rt:
  assumes "conductResearchWith_rt ps tmo w = Inr agg"
  shows "allSources agg = first_seen (citations_of (results agg))"
proof -
  let ?rs = "collect_results_rt (build_tasks ps) w (settle_all (build_tasks ps) tmo w)"
  from assms obtain st where st: "scan_results ?rs ([], {}) = Inr st"
    and agg: "results agg = ?rs" "allSources agg = fst st"
    by (auto simp: conductResearchWith_rt_def Let_def split: sum.splits)
  show ?thesis
    using scan_results_Inr [OF st] by (simp add: agg fold_dedup_first_seen)
qed

section \<open>The declared types inside the received bodies\<close>

lemma embed_data_not_null: "embed_data d \<noteq> JNull"
  by (simp add: embed_data_def)

lemma get_embed_data:
  "get (embed_data d) ''choices'' = map_option (\<lambda>cs. JArr (map embed_choice cs)) (choices d)"
  "get (embed_data d) ''citations'' = map_option (\<lambda>cs. JArr (map JStr cs)) (citations d)"
  "get (embed_data d) ''candidates'' = map_option (\<lambda>cs. JArr (map embed_candidate cs)) (candidates d)"
  by (simp_all add: embed_data_def split: option.splits)

lemma chat_content_embed: "chat_content_rt (embed_data d) = JStr (chat_content d)"
  by (simp add: chat_content_rt_def chat_content_def get_embed_data embed_choice_def
      embed_message_def split: option.splits list.splits)

lemma gemini_text_embed: "gemini_text_rt (embed_data d) = JStr (gemini_text d)"
  by (simp add: gemini_text_rt_def gemini_text_def get_embed_data embed_candidate_def
      embed_content_def embed_part_def split: option.splits list.splits)

lemma elapsed_embed_env: "elapsed (embed_env e) = elapsed e"
  by (simp add: embed_env_def)

lemma perplexity_try_embed:
  "perplexity_try_rt q (embed_env e) = map_sum id embed_result (perplexity_try q e)"
proof (cases "fetch_result e")
  case (Inl err)
  then show ?thesis
    by (simp add: perplexity_try_rt_def perplexity_try_def embed_env_def)
next
  case fetched: (Inr resp)
  show ?thesis
  proof (cases "resp_ok resp")
    case False
    then show ?thesis
      using fetched
      by (cases "resp_text resp")
        (simp_all add: perplexity_try_rt_def perplexity_try_def embed_env_def embed_response_def
          embed_result_def)
  next
    case True
    show ?thesis
    proof (cases "resp_json resp")
      case (Inl err)
      with True fetched show ?thesis
        by (simp add: perplexity_try_rt_def perplexity_try_def embed_env_def embed_response_def)
    next
      case parsed: (Inr b)
      show ?thesis
      proof (cases b)
        case JsonNull
        with parsed True fetched show ?thesis
          by (simp add: perplexity_try_rt_def perplexity_try_def embed_env_def embed_response_def)
      next
        case (JsonObject d)
        with parsed True fetched show ?thesis
          by (simp add: perplexity_try_rt_def perplexity_try_def embed_env_def embed_response_def
              embed_result_def embed_data_not_null chat_content_embed get_embed_data split: option.splits)
      qed
    qed
  qed
qed

lemma perplexity_search_embed:
  "perplexity_search_rt k q t (embed_env e) = map_sum id embed_result (perplexity_search k q t e)"
  by (cases "perplexity_try q e")
    (simp_all add: perplexity_search_rt_def perplexity_search_def perplexity_try_embed embed_result_def
      elapsed_embed_env)

lemma gemini_try_embed:
  "gemini_try_rt q (embed_env e) = map_sum id embed_result (gemini_try q e)"
proof (cases "fetch_result e")
  case (Inl err)
  then show ?thesis
    by (simp add: gemini_try_rt_def gemini_try_def embed_env_def)
next
  case fetched: (Inr resp)
  show ?thesis
  proof (cases "resp_ok resp")
    case False
    then show ?thesis
      using fetched
      by (cases "resp_text resp")
        (simp_all add: gemini_try_rt_def gemini_try_def embed_env_def embed_response_def
          embed_result_def)
  next
    case True
    show ?thesis
    proof (cases "resp_json resp")
      case (Inl err)
      with True fetched show ?thesis
        by (simp add: gemini_try_rt_def gemini_try_def embed_env_def embed_response_def)
    next
      case parsed: (Inr b)
      show ?thesis
      proof (cases b)
        case JsonNull
        with parsed True fetched show ?thesis
          by (simp add: gemini_try_rt_def gemini_try_def embed_env_def embed_response_def)
      next
        case (JsonObject d)
        with parsed True fetched show ?thesis
          by (simp add: gemini_try_rt_def gemini_try_def embed_env_def embed_response_def
              embed_result_def embed_data_not_null gemini_text_embed )
      qed
    qed
  qed
qed

lemma gemini_search_embed:
  "gemini_search_rt k q t (embed_env e) = map_sum id embed_result (gemini_search k q t e)"
  by (cases "gemini_try q e")
    (simp_all add: gemini_search_rt_def gemini_search_def gemini_try_embed embed_result_def
      elapsed_embed_env)

lemma grok_try_embed:
  "grok_try_rt q (embed_env e) = map_sum id embed_result (grok_try q e)"
proof (cases "fetch_result e")
  case (Inl err)
  then show ?thesis
    by (simp add: grok_try_rt_def grok_try_def embed_env_def)
next
  case fetched: (Inr resp)
  show ?thesis
  proof (cases "resp_ok resp")
    case False
    then show ?thesis
      using fetched
      by (cases "resp_text resp")
        (simp_all add: grok_try_rt_def grok_try_def embed_env_def embed_response_def
          embed_result_def)
  next
    case True
    show ?thesis
    proof (cases "resp_json resp")
      case (Inl err)
      with True fetched show ?thesis
        by (simp add: grok_try_rt_def grok_try_def embed_env_def embed_response_def)
    next
      case parsed: (Inr b)
      show ?thesis
      proof (cases b)
        case JsonNull
        with parsed True fetched show ?thesis
          by (simp add: grok_try_rt_def grok_try_def embed_env_def embed_response_def)
      next
        case (JsonObject d)
        with parsed True fetched show ?thesis
          by (simp add: grok_try_rt_def grok_try_def embed_env_def embed_response_def
              embed_result_def embed_data_not_null chat_content_embed )
      qed
    qed
  qed
qed

lemma grok_search_embed:
  "grok_search_rt k q t (embed_env e) = map_sum id embed_result (grok_search k q t e)"
  by (cases "grok_try q e")
    (simp_all add: grok_search_rt_def grok_search_def grok_try_embed embed_result_def
      elapsed_embed_env)

lemma scan_sources_strings: "scan_sources (map JStr xs) st = Inr (fold dedup_step xs st)"
  by (induction xs arbitrary: st) simp_all

lemma scan_results_embed:
  "scan_results (map embed_result rs) st
     = Inr (fold (\<lambda>r st. fold dedup_step (sources r) st) rs st)"
  by (induction rs arbitrary: st) (simp_all add: embed_result_def scan_sources_strings)

lemma settle_all_embed:
  "settle_all (build_tasks (provider_table_rt v cfg s)) tmo (embed_run w)
     = map (map_sum id embed_result) (settle_all (build_tasks (provider_table v cfg s)) tmo w)"
proof (rule nth_equalityI)
  show "length (settle_all (build_tasks (provider_table_rt v cfg s)) tmo (embed_run w))
      = length (map (map_sum id embed_result) (settle_all (build_tasks (provider_table v cfg s)) tmo w))"
    by (simp add: length_settle_all length_tasks_conductResearch length_tasks_conductResearch_rt)
next
  fix i
  assume "i < length (settle_all (build_tasks (provider_table_rt v cfg s)) tmo (embed_run w))"
  then have i: "i < 9"
    by (simp add: length_settle_all length_tasks_conductResearch_rt)
  have call: "call (embed_run w) i = embed_env (call w i)"
    by (simp add: embed_run_def)
  from i show "settle_all (build_tasks (provider_table_rt v cfg s)) tmo (embed_run w) ! i
      = map (map_sum id embed_result) (settle_all (build_tasks (provider_table v cfg s)) tmo w) ! i"
    by (simp add: settle_all_nth length_settle_all length_tasks_conductResearch
        length_tasks_conductResearch_rt call)
      (simp add: tasks_conductResearch tasks_conductResearch_rt nth_append length_queries
        PerplexityProvider_def GeminiProvider_def GrokProvider_def PerplexityProvider_rt_def
        GeminiProvider_rt_def GrokProvider_rt_def perplexity_search_embed gemini_search_embed
        grok_search_embed)
qed

lemma collect_results_embed:
  assumes "length trt = length t"
    and "\<forall>i<length t. name (fst (trt ! i)) = name (fst (t ! i)) \<and> snd (trt ! i) = snd (t ! i)"
    and "length settled = length t"
  shows "collect_results_rt trt (embed_run w) (map (map_sum id embed_result) settled)
           = map embed_result (collect_results t w settled)"
proof (rule nth_equalityI)
  show "length (collect_results_rt trt (embed_run w) (map (map_sum id embed_result) settled))
      = length (map embed_result (collect_results t w settled))"
    by (simp add: collect_results_rt_def collect_results_def)
next
  fix i
  assume "i < length (collect_results_rt trt (embed_run w) (map (map_sum id embed_result) settled))"
  then have i: "i < length settled"
    by (simp add: collect_results_rt_def)
  with assms have same: "name (fst (trt ! i)) = name (fst (t ! i))" "snd (trt ! i) = snd (t ! i)"
    by simp_all
  from i show "collect_results_rt trt (embed_run w) (map (map_sum id embed_result) settled) ! i
      = map embed_result (collect_results t w settled) ! i"
    by (cases "settled ! i")
      (simp_all add: collect_results_rt_def collect_results_def nth_enumerate_eq same
        embed_result_def embed_run_def)
qed

lemma task_labels_conductResearch:
  "i < 9 \<Longrightarrow>
   name (fst (build_tasks (provider_table_rt v cfg s) ! i))
     = name (fst (build_tasks (provider_table v cfg s) ! i)) \<and>
   snd (build_tasks (provider_table_rt v cfg s) ! i) = snd (build_tasks (provider_table v cfg s) ! i)"
  by (simp add: tasks_conductResearch tasks_conductResearch_rt nth_append length_queries
      PerplexityProvider_def GeminiProvider_def GrokProvider_def PerplexityProvider_rt_def
      GeminiProvider_rt_def GrokProvider_rt_def)

text \<open>
  On bodies of the declared types the orchestrator on received bodies resolves, with the
  value that the orchestrator of the sections above returns.
\<close>

lemma conductResearch_at_declared_types:
  "conductResearch_rt v cfg s (embed_run w) = Inr (embed_aggregated (conductResearch v cfg s w))"
proof -
  let ?tmo = "case timeoutMs cfg of None \<Rightarrow> 90000 | Some t \<Rightarrow> t"
  let ?t = "build_tasks (provider_table v cfg s)"
  let ?trt = "build_tasks (provider_table_rt v cfg s)"
  let ?rs = "collect_results ?t w (settle_all ?t ?tmo w)"
  have rs: "collect_results_rt ?trt (embed_run w) (settle_all ?trt ?tmo (embed_run w))
              = map embed_result ?rs"
    unfolding settle_all_embed
    by (rule collect_results_embed)
      (simp_all add: length_tasks_conductResearch length_tasks_conductResearch_rt
        task_labels_conductResearch length_settle_all)
  have f: "filter success (map embed_result rs) = map embed_result (filter success rs)"
    and g: "filter (\<lambda>r. \<not> success r) (map embed_result rs)
              = map embed_result (filter (\<lambda>r. \<not> success r) rs)"
    and p: "map (provider \<circ> embed_result) rs = map provider rs" for rs
    by (simp_all add: filter_map comp_def embed_result_def)
  have tot: "total_elapsed (embed_run w) = total_elapsed w"
    by (simp add: embed_run_def)
  show ?thesis
    by (simp add: conductResearch_rt_def conductResearchWith_rt_def rs scan_results_embed
        conductResearch_def conductResearchWith_def embed_aggregated_def collect_sources_def f g p
        tot Let_def)
qed

section \<open>The claims\<close>

text \<open>
  C1. If every task fails (its promise rejects or its result has success = false), the
  orchestrator still returns a complete Aggregated Results value with successCount = 0,
  failureCount equal to the number of tasks and one result per task; so does
  conductResearch, with 9 results, when each of the 9 calls meets a failure mode.
\<close>

theorem whole_batch_failure_resolves:
  "((\<forall>outcome \<in> set (settle_all (build_tasks ps) tmo w). task_fails outcome) \<longrightarrow>
      successCount (conductResearchWith ps tmo w) = 0 \<and>
      failureCount (conductResearchWith ps tmo w) = length (build_tasks ps) \<and>
      length (results (conductResearchWith ps tmo w)) = length (build_tasks ps)) \<and>
   ((\<forall>i<9. call_fails (call w i)) \<longrightarrow>
      successCount (conductResearch v cfg s w) = 0 \<and>
      failureCount (conductResearch v cfg s w) = 9 \<and>
      length (results (conductResearch v cfg s w)) = 9)"
proof (intro conjI impI)
  assume a: "\<forall>outcome \<in> set (settle_all (build_tasks ps) tmo w). task_fails outcome"
  have nos: "\<forall>r \<in> set (results (conductResearchWith ps tmo w)). \<not> success r"
    unfolding results_conductResearchWith by (rule collect_results_all_fail [OF a])
  then have f: "filter success (results (conductResearchWith ps tmo w)) = []"
    by (simp add: filter_empty_conv)
  from nos have g: "filter (\<lambda>r. \<not> success r) (results (conductResearchWith ps tmo w))
      = results (conductResearchWith ps tmo w)"
    by (simp add: filter_id_conv)
  show "successCount (conductResearchWith ps tmo w) = 0"
    by (simp add: counts_conductResearchWith f)
  show "failureCount (conductResearchWith ps tmo w) = length (build_tasks ps)"
    by (simp add: counts_conductResearchWith g length_results)
  show "length (results (conductResearchWith ps tmo w)) = length (build_tasks ps)"
    by (rule length_results)
next
  assume a: "\<forall>i<9. call_fails (call w i)"
  let ?rs = "results (conductResearch v cfg s w)"
  have len: "length ?rs = 9"
    by (rule length_results_conductResearch)
  have nos: "\<forall>r \<in> set ?rs. \<not> success r"
  proof
    fix r assume "r \<in> set ?rs"
    then obtain i where "i < 9" "r = ?rs ! i"
      by (auto simp: in_set_conv_nth len)
    with a result_conductResearch [of i v cfg s w] show "\<not> success r"
      by simp
  qed
  then have f: "filter success ?rs = []"
    by (simp add: filter_empty_conv)
  from nos have g: "filter (\<lambda>r. \<not> success r) ?rs = ?rs"
    by (simp add: filter_id_conv)
  show "successCount (conductResearch v cfg s w) = 0"
    using f by (simp add: conductResearch_With counts_conductResearchWith)
  show "failureCount (conductResearch v cfg s w) = 9"
    using g len by (simp add: conductResearch_With counts_conductResearchWith)
  show "length ?rs = 9"
    by (rule len)
qed

theorem whole_batch_failure_resolves_witness:
  "list_all task_fails
     (settle_all (build_tasks [(rejecting_provider, [''q1'', ''q2''])]) 5000 network_down) \<and>
   successCount (conductResearchWith [(rejecting_provider, [''q1'', ''q2''])] 5000 network_down) = 0 \<and>
   failureCount (conductResearchWith [(rejecting_provider, [''q1'', ''q2''])] 5000 network_down) = 2 \<and>
   list_all (\<lambda>i. call_fails (call network_down i)) [0, 1, 2, 3, 4, 5, 6, 7, 8] \<and>
   successCount (conductResearch ''TestVendor'' test_config None network_down) = 0 \<and>
   failureCount (conductResearch ''TestVendor'' test_config None network_down) = 9 \<and>
   length (results (conductResearch ''TestVendor'' test_config None network_down)) = 9"
proof -
  have h1: "\<forall>outcome \<in> set (settle_all (build_tasks [(rejecting_provider, [''q1'', ''q2''])]) 5000 network_down).
      task_fails outcome"
    by (simp add: build_tasks_def settle_all_def rejecting_provider_def task_fails_def)
  have h2: "\<forall>i<9. call_fails (call network_down i)"
    by (simp add: network_down_def call_fails_def)
  have l: "length (build_tasks [(rejecting_provider, [''q1'', ''q2''])]) = 2"
    by (simp add: build_tasks_def)
  show ?thesis
    using h1 h2 l
      whole_batch_failure_resolves [of "[(rejecting_provider, [''q1'', ''q2''])]" 5000 network_down
        "''TestVendor''" test_config None]
    by (simp add: list_all_iff)
qed

text \<open>
  C2. conductResearch does not resolve for every response of a provider. The Perplexity
  client passes the citations of a parsed body on unchecked, in a result with
  success = true, and the loop over the sources calls \<^verbatim>\<open>trim\<close> on each of them outside
  any \<^verbatim>\<open>try\<close> block. When every call receives a 200 response whose body has the
  citations [1], the promise of conductResearch rejects with the TypeError
  \<^verbatim>\<open>src.trim is not a function\<close> and no result is returned; with the citations [null]
  it rejects on reading \<^verbatim>\<open>trim\<close> of null, and with the citations 5 or {} because the
  sources are not iterable.
\<close>

theorem conductResearch_rejects_on_non_string_citation:
  "perplexity_search_rt ''test-key'' q 5000 (call (citation_world (JArr [JNum 1])) i)
     = Inr \<lparr>provider = ''Perplexity'', query = q, content = JStr ''Found certifications'',
            sources = JArr [JNum 1], success = True, error = None, durationMs = 800\<rparr> \<and>
   conductResearch_rt ''TestVendor'' test_config None (citation_world (JArr [JNum 1]))
     = Inl (JsError ''src.trim is not a function'') \<and>
   conductResearch_rt ''TestVendor'' test_config None (citation_world (JArr [JNull]))
     = Inl (JsError (''Cannot read properties of null (reading '' @ [CHR 0x27] @ ''trim'' @ [CHR 0x27] @ '')'')) \<and>
   conductResearch_rt ''TestVendor'' test_config None (citation_world (JNum 5))
     = Inl (JsError ''r.sources is not iterable'') \<and>
   conductResearch_rt ''TestVendor'' test_config None (citation_world (JObj []))
     = Inl (JsError ''r.sources is not iterable'')"
proof (intro conjI)
  show "perplexity_search_rt ''test-key'' q 5000 (call (citation_world (JArr [JNum 1])) i)
     = Inr \<lparr>provider = ''Perplexity'', query = q, content = JStr ''Found certifications'',
            sources = JArr [JNum 1], success = True, error = None, durationMs = 800\<rparr>"
    by (simp add: perplexity_search_rt_def perplexity_try_rt_def citation_world_def
        body_with_citations_def chat_content_rt_def perplexity_name_def)
  show "conductResearch_rt ''TestVendor'' test_config None (citation_world (JArr [JNum 1]))
     = Inl (JsError ''src.trim is not a function'')"
    by code_simp
  show "conductResearch_rt ''TestVendor'' test_config None (citation_world (JArr [JNull]))
     = Inl (JsError (''Cannot read properties of null (reading '' @ [CHR 0x27] @ ''trim'' @ [CHR 0x27] @ '')''))"
    by code_simp
  show "conductResearch_rt ''TestVendor'' test_config None (citation_world (JNum 5))
     = Inl (JsError ''r.sources is not iterable'')"
    by code_simp
  show "conductResearch_rt ''TestVendor'' test_config None (citation_world (JObj []))
     = Inl (JsError ''r.sources is not iterable'')"
    by code_simp
qed

text \<open>
  C3. successCount + failureCount = len(results); each count is the number of results
  whose success flag is true (respectively false), computed by filtering the results;
  both are natural numbers and their sum does not exceed the number of tasks.
\<close>

theorem counts_partition_results:
  "successCount (conductResearchWith ps tmo w) + failureCount (conductResearchWith ps tmo w)
     = length (results (conductResearchWith ps tmo w)) \<and>
   successCount (conductResearchWith ps tmo w)
     = length (filter success (results (conductResearchWith ps tmo w))) \<and>
   failureCount (conductResearchWith ps tmo w)
     = length (filter (\<lambda>r. \<not> success r) (results (conductResearchWith ps tmo w))) \<and>
   successCount (conductResearchWith ps tmo w) + failureCount (conductResearchWith ps tmo w)
     \<le> length (build_tasks ps) \<and>
   successCount (conductResearch v cfg s w) + failureCount (conductResearch v cfg s w)
     = length (results (conductResearch v cfg s w)) \<and>
   successCount (conductResearch v cfg s w) + failureCount (conductResearch v cfg s w) \<le> 9"
proof -
  have sum: "successCount (conductResearchWith ps tmo w) + failureCount (conductResearchWith ps tmo w)
     = length (results (conductResearchWith ps tmo w))" for ps tmo
    by (simp only: counts_conductResearchWith sum_length_filter_compl)
  show ?thesis
    by (simp add: sum counts_conductResearchWith [symmetric] length_results conductResearch_With
        length_tasks_conductResearch)
qed

theorem counts_partition_results_witness:
  "successCount (conductResearch ''TestVendor'' test_config None network_down)
     + failureCount (conductResearch ''TestVendor'' test_config None network_down) = 9"
  using counts_partition_results [of "[]" 0 network_down "''TestVendor''" test_config None]
    length_results_conductResearch [of "''TestVendor''" test_config None network_down]
  by simp



text \<open>
  C5. allSources is the first-seen list of the citations of the results in dispatch
  order: citations with equal trim-plus-lowercase normalisations collapse to one entry
  (the normalisations of the entries are pairwise distinct and cover those of all
  citations), the entry kept is the first original string met, and the entries are in
  first-seen order. The normalisation of the code is trimming and lower-casing by code
  points, for strings of code points below 256. The same holds of every value that
  conductResearch returns on received bodies.
\<close>

theorem allSources_first_seen:
  "allSources (conductResearchWith ps tmo w)
     = first_seen (concat (map sources (results (conductResearchWith ps tmo w)))) \<and>
   distinct (map normalise (allSources (conductResearchWith ps tmo w))) \<and>
   normalise ` set (allSources (conductResearchWith ps tmo w))
     = normalise ` set (concat (map sources (results (conductResearchWith ps tmo w)))) \<and>
   allSources (conductResearch v cfg s w)
     = first_seen (concat (map sources (results (conductResearch v cfg s w)))) \<and>
   normalise src = trim_lowercase src \<and>
   (conductResearchWith_rt ps' tmo w' = Inr agg \<longrightarrow>
      allSources agg = first_seen (citations_of (results agg))) \<and>
   (conductResearch_rt v cfg s w' = Inr agg \<longrightarrow>
      allSources agg = first_seen (citations_of (results agg)))"
proof -
  have a: "allSources (conductResearchWith ps tmo w)
     = first_seen (concat (map sources (results (conductResearchWith ps tmo w))))" for ps tmo
    by (simp only: allSources_conductResearchWith collect_sources_eq_first_seen)
  have b: "allSources agg = first_seen (citations_of (results agg))"
    if "conductResearchWith_rt ps' tmo w' = Inr agg" for ps' tmo
    using that by (rule allSources_conductResearchWith_rt)
  have c: "allSources agg = first_seen (citations_of (results agg))"
    if "conductResearch_rt v cfg s w' = Inr agg"
    using that unfolding conductResearch_rt_With by (rule allSources_conductResearchWith_rt)
  have typed: "allSources (conductResearchWith ps tmo w)
     = first_seen (concat (map sources (results (conductResearchWith ps tmo w)))) \<and>
   distinct (map normalise (allSources (conductResearchWith ps tmo w))) \<and>
   normalise ` set (allSources (conductResearchWith ps tmo w))
     = normalise ` set (concat (map sources (results (conductResearchWith ps tmo w)))) \<and>
   allSources (conductResearch v cfg s w)
     = first_seen (concat (map sources (results (conductResearch v cfg s w))))"
    unfolding conductResearch_With
    by (intro conjI) (simp_all only: a first_seen_distinct first_seen_keys)
  have received: "normalise src = trim_lowercase src \<and>
   (conductResearchWith_rt ps' tmo w' = Inr agg \<longrightarrow>
      allSources agg = first_seen (citations_of (results agg))) \<and>
   (conductResearch_rt v cfg s w' = Inr agg \<longrightarrow>
      allSources agg = first_seen (citations_of (results agg)))"
    using normalise_trim_lowercase b c by blast
  from typed received show ?thesis
    by (elim conjE, intro conjI) assumption+
qed

lemma results_citing:
  "map sources (results (conductResearchWith [(PerplexityProvider ''key'', [''q1'', ''q2'']), (GrokProvider ''key'', [''q3''])] 5000 citing_world))
   = [[''https://example.com'', ''https://acme.test/soc2''], ['' HTTPS://Example.com '', ''https://acme.test/iso''], []]"
  by (simp add: conductResearchWith_def build_tasks_def settle_all_def collect_results_def
      PerplexityProvider_def GrokProvider_def perplexity_search_def perplexity_try_def
      grok_search_def grok_try_def citing_world_def)

lemma first_seen_example:
  "first_seen [''https://example.com'', ''https://acme.test/soc2'', '' HTTPS://Example.com '', ''https://acme.test/iso'']
   = [''https://example.com'', ''https://acme.test/soc2'', ''https://acme.test/iso'']"
  by code_simp

lemma results_latin1:
  "map sources (results (conductResearchWith [(PerplexityProvider ''key'', [''q1'', ''q2'']), (GrokProvider ''key'', [''q3''])] 5000 latin1_world))
   = [[cafe_upper, ''https://acme.test/soc2''], [cafe_padded, ''https://acme.test/iso''], []]"
  by (simp add: conductResearchWith_def build_tasks_def settle_all_def collect_results_def
      PerplexityProvider_def GrokProvider_def perplexity_search_def perplexity_try_def
      grok_search_def grok_try_def latin1_world_def)

lemma first_seen_latin1:
  "first_seen [cafe_upper, ''https://acme.test/soc2'', cafe_padded, ''https://acme.test/iso'']
   = [cafe_upper, ''https://acme.test/soc2'', ''https://acme.test/iso'']"
  by code_simp

lemma resolves_latin1:
  "case conductResearch_rt ''TestVendor'' test_config None
          (citation_world (JArr [JStr cafe_upper, JStr cafe_padded])) of
     Inl err \<Rightarrow> False
   | Inr agg \<Rightarrow> allSources agg = [cafe_upper] \<and>
                citations_of (results agg)
                  = [cafe_upper, cafe_padded, cafe_upper, cafe_padded, cafe_upper, cafe_padded]"
  by code_simp

theorem allSources_first_seen_witness:
  "allSources (conductResearchWith [(PerplexityProvider ''key'', [''q1'', ''q2'']), (GrokProvider ''key'', [''q3''])] 5000 citing_world)
     = [''https://example.com'', ''https://acme.test/soc2'', ''https://acme.test/iso''] \<and>
   allSources (conductResearchWith [(PerplexityProvider ''key'', [''q1'', ''q2'']), (GrokProvider ''key'', [''q3''])] 5000 latin1_world)
     = [cafe_upper, ''https://acme.test/soc2'', ''https://acme.test/iso''] \<and>
   normalise cafe_upper = cafe_lower \<and> normalise cafe_padded = cafe_lower \<and>
   (\<exists>agg. conductResearch_rt ''TestVendor'' test_config None
            (citation_world (JArr [JStr cafe_upper, JStr cafe_padded])) = Inr agg \<and>
          allSources agg = [cafe_upper] \<and>
          allSources agg = first_seen (citations_of (results agg)))"
proof -
  let ?ps = "[(PerplexityProvider ''key'', [''q1'', ''q2'']), (GrokProvider ''key'', [''q3''])]"
  let ?w = "citation_world (JArr [JStr cafe_upper, JStr cafe_padded])"
  obtain agg where agg: "conductResearch_rt ''TestVendor'' test_config None ?w = Inr agg"
    and src: "allSources agg = [cafe_upper]"
    using resolves_latin1 by (auto split: sum.splits)
  have n: "normalise cafe_upper = cafe_lower" "normalise cafe_padded = cafe_lower"
    by code_simp+
  have c: "allSources (conductResearchWith ?ps 5000 citing_world)
     = [''https://example.com'', ''https://acme.test/soc2'', ''https://acme.test/iso'']"
    using allSources_first_seen [of ?ps 5000 citing_world]
    by (simp only: results_citing first_seen_example concat.simps append.simps)
  have l: "allSources (conductResearchWith ?ps 5000 latin1_world)
     = [cafe_upper, ''https://acme.test/soc2'', ''https://acme.test/iso'']"
    using allSources_first_seen [of ?ps 5000 latin1_world]
    by (simp only: results_latin1 first_seen_latin1 concat.simps append.simps)
  have r: "allSources agg = first_seen (citations_of (results agg))"
    using allSources_first_seen [of "[]" 0 citing_world "''TestVendor''" test_config None "[]" "[]" ?w agg] agg
    by blast
  show ?thesis
    using c l n agg src r by blast
qed

text \<open>
  C6, as amended. The query generator is a function of its inputs: equal inputs give
  equal query batches. Every generated query starts with the short name. For a vendor
  name that ends with a legal-entity suffix in any letter case, whatever stands in front
  of it, the suffix is stripped together with the separator in front of it (white space,
  and one comma before that), once, and the rest is trimmed; so a bare name followed by a
  separator and a suffix gives the bare name. The suffix text occurs in a generated
  query exactly when it occurs in the short name or in the services clause followed by
  its full stop.
\<close>

theorem legal_suffix_stripped_once:
  "(v = v' \<and> s = s' \<longrightarrow> generateQueries v s = generateQueries v' s') \<and>
   (\<forall>q \<in> set (all_queries (generateQueries v s)). prefix (shortName v) q) \<and>
   (toLowerCase suf \<in> set legal_suffixes \<longrightarrow>
      shortName (body @ suf) = trim (strip_separator body) \<and>
      ((\<exists>q \<in> set (all_queries (generateQueries (body @ suf) s)). sublist suf q) \<longleftrightarrow>
         sublist suf (shortName (body @ suf)) \<or> sublist suf (serviceContext s @ ''.''))) \<and>
   (toLowerCase suf \<in> set legal_suffixes \<and> bare_name nm \<and> is_separator sep \<longrightarrow>
      shortName (nm @ sep @ suf) = nm)"
proof (intro conjI impI)
  assume "v = v' \<and> s = s'"
  then show "generateQueries v s = generateQueries v' s'" by simp
next
  show "\<forall>q \<in> set (all_queries (generateQueries v s)). prefix (shortName v) q"
    by (rule queries_start_with_shortName)
next
  assume suf: "toLowerCase suf \<in> set legal_suffixes"
  then show "shortName (body @ suf) = trim (strip_separator body)"
    by (rule shortName_suffix)
  show "(\<exists>q \<in> set (all_queries (generateQueries (body @ suf) s)). sublist suf q) \<longleftrightarrow>
         sublist suf (shortName (body @ suf)) \<or> sublist suf (serviceContext s @ ''.'')"
    using suf by (rule suffix_in_queries_iff)
next
  assume "toLowerCase suf \<in> set legal_suffixes \<and> bare_name nm \<and> is_separator sep"
  then show "shortName (nm @ sep @ suf) = nm"
    by (simp add: shortName_strips)
qed

theorem legal_suffix_stripped_once_witness:
  "shortName ''Acme Corp.'' = ''Acme'' \<and>
   list_all (prefix ''Acme'') (all_queries (generateQueries ''Acme Corp.'' (Some ''SaaS Platform''))) \<and>
   list_all (\<lambda>q. \<not> sublist ''Corp.'' q) (all_queries (generateQueries ''Acme Corp.'' (Some ''SaaS Platform''))) \<and>
   shortName ''Acme LLC, llc'' = ''Acme LLC'' \<and>
   shortName (''Acme'' @ [CHR 0xA0] @ ''Inc.'') = ''Acme''"
proof -
  have h1: "toLowerCase ''Corp.'' \<in> set legal_suffixes \<and> bare_name ''Acme'' \<and> is_separator '' ''"
    by code_simp
  have h2: "\<not> (sublist ''Corp.'' ''Acme'' \<or> sublist ''Corp.'' (serviceContext (Some ''SaaS Platform'') @ ''.''))"
    by code_simp
  have h3: "toLowerCase ''llc'' \<in> set legal_suffixes \<and> bare_name ''Acme LLC'' \<and> is_separator '', ''"
    by code_simp
  have h4: "toLowerCase ''Inc.'' \<in> set legal_suffixes"
    by code_simp
  have h5: "trim (strip_separator (''Acme'' @ [CHR 0xA0])) = ''Acme''"
    by code_simp
  have e: "''Acme'' @ '' '' @ ''Corp.'' = ''Acme Corp.''" "''Acme '' @ ''Corp.'' = ''Acme Corp.''"
    "''Acme LLC'' @ '', '' @ ''llc'' = ''Acme LLC, llc''"
    by simp_all
  note a = legal_suffix_stripped_once [of "''Acme Corp.''" "''Acme Corp.''" "Some ''SaaS Platform''"
      "Some ''SaaS Platform''" "''Corp.''" "''Acme ''" "''Acme''" "'' ''", unfolded e]
  note b = legal_suffix_stripped_once [of "''Acme Corp.''" "''Acme Corp.''" None None
      "''llc''" "[]" "''Acme LLC''" "'', ''", unfolded e]
  note c = legal_suffix_stripped_once [of "''Acme Corp.''" "''Acme Corp.''" None None
      "''Inc.''" "''Acme'' @ [CHR 0xA0]" "[]" "[]"]
  from a h1 have sn: "shortName ''Acme Corp.'' = ''Acme''"
    by blast
  from a have "\<forall>q \<in> set (all_queries (generateQueries ''Acme Corp.'' (Some ''SaaS Platform''))).
      prefix (shortName ''Acme Corp.'') q"
    by blast
  then have p: "list_all (prefix ''Acme'') (all_queries (generateQueries ''Acme Corp.'' (Some ''SaaS Platform'')))"
    unfolding sn by (simp only: list_all_iff)
  from a h1 h2 have "\<not> (\<exists>q \<in> set (all_queries (generateQueries ''Acme Corp.'' (Some ''SaaS Platform''))).
      sublist ''Corp.'' q)"
    unfolding sn by blast
  then have f: "list_all (\<lambda>q. \<not> sublist ''Corp.'' q)
      (all_queries (generateQueries ''Acme Corp.'' (Some ''SaaS Platform'')))"
    by (simp only: list_all_iff) blast
  from b h3 have l: "shortName ''Acme LLC, llc'' = ''Acme LLC''"
    by blast
  from c h4 h5 have n: "shortName ((''Acme'' @ [CHR 0xA0]) @ ''Inc.'') = ''Acme''"
    by simp
  from sn p f l n show ?thesis
    by simp
qed

text \<open>
  The claim as stated fails, by the design of the pattern, which removes one trailing
  match and nothing else. "Acme Corp Corp" carries the trailing suffix "Corp"; it is
  stripped once, the short name is "Acme Corp", and every query contains "Corp".
  "Corpay Corp" gives the short name "Corpay", and every query contains "Corp" inside it.
  With the vendor "Acme Corp" and the services "Corporate cards" the third Perplexity
  query contains "Corp" in the services clause; with the vendor "Acme Inc." and the
  services "Foo Inc", which do not contain "Inc.", the third Gemini query contains
  "Inc." where the clause meets its full stop.
\<close>

theorem suffix_text_in_queries_counterexample:
  "toLowerCase ''Corp'' \<in> set legal_suffixes \<and>
   shortName ''Acme Corp Corp'' = ''Acme Corp'' \<and>
   list_all (sublist ''Corp'') (all_queries (generateQueries ''Acme Corp Corp'' None)) \<and>
   shortName ''Corpay Corp'' = ''Corpay'' \<and>
   list_all (sublist ''Corp'') (all_queries (generateQueries ''Corpay Corp'' None)) \<and>
   shortName ''Acme Corp'' = ''Acme'' \<and>
   sublist ''Corp'' (perplexity (generateQueries ''Acme Corp'' (Some ''Corporate cards'')) ! 2) \<and>
   toLowerCase ''Inc.'' \<in> set legal_suffixes \<and>
   shortName ''Acme Inc.'' = ''Acme'' \<and>
   \<not> sublist ''Inc.'' ''Foo Inc'' \<and>
   sublist ''Inc.'' (gemini (generateQueries ''Acme Inc.'' (Some ''Foo Inc'')) ! 2)"
  by code_simp

text \<open>
  C7. When servicesUsed is provided (a non-empty text), exactly one query of each
  provider, the third, incorporates it, as a space and the text placed after the first
  words of the template; the first two queries are those generated without it. When
  servicesUsed is absent (or empty) the third query is the template without the clause.
\<close>

theorem services_clause_in_one_query:
  "(t \<noteq> [] \<longrightarrow>
      perplexity (generateQueries v (Some t))
        = [perplexity (generateQueries v None) ! 0, perplexity (generateQueries v None) ! 1,
           shortName v @ '' GDPR compliance data processing agreement privacy policy'' @ '' '' @ t] \<and>
      gemini (generateQueries v (Some t))
        = [gemini (generateQueries v None) ! 0, gemini (generateQueries v None) ! 1,
           shortName v @ '' service availability SLA disaster recovery redundancy architecture''
             @ '' '' @ t
             @ ''. Assess their availability guarantees, redundancy, and disaster recovery capabilities.''] \<and>
      grok (generateQueries v (Some t))
        = [grok (generateQueries v None) ! 0, grok (generateQueries v None) ! 1,
           shortName v @ '' alternatives comparison security weaknesses limitations''
             @ '' '' @ t
             @ ''. What are the known security weaknesses or limitations compared to alternatives?'']) \<and>
   perplexity (generateQueries v None) ! 2
     = shortName v @ '' GDPR compliance data processing agreement privacy policy'' \<and>
   gemini (generateQueries v None) ! 2
     = shortName v @ '' service availability SLA disaster recovery redundancy architecture''
         @ ''. Assess their availability guarantees, redundancy, and disaster recovery capabilities.'' \<and>
   grok (generateQueries v None) ! 2
     = shortName v @ '' alternatives comparison security weaknesses limitations''
         @ ''. What are the known security weaknesses or limitations compared to alternatives?'' \<and>
   generateQueries v (Some []) = generateQueries v None"
  by (simp add: generateQueries_def serviceContext_def Let_def)

theorem services_clause_in_one_query_witness:
  "perplexity (generateQueries ''TestVendor'' (Some ''API Gateway, CDN'')) ! 2
     = ''TestVendor GDPR compliance data processing agreement privacy policy API Gateway, CDN'' \<and>
   perplexity (generateQueries ''TestVendor'' (Some ''API Gateway, CDN'')) ! 0
     = perplexity (generateQueries ''TestVendor'' None) ! 0"
proof -
  have sn: "shortName ''TestVendor'' = ''TestVendor''"
    by code_simp
  have ne: "''API Gateway, CDN'' \<noteq> []" by simp
  show ?thesis
    using services_clause_in_one_query [of "''API Gateway, CDN''" "''TestVendor''"] ne
    by (simp add: sn)
qed

text \<open>
  C8. The formatter emits, for each provider in first-seen order, its header and then,
  for every result of that provider in order, the lines of that result: for a
  successful result with non-empty content the query text, the content and, when there
  are sources, the sources heading and one bulleted line per source, then an empty
  line; for a failed result the query text and the failure marker with the error
  string; for a successful result with empty content nothing at all. The lines are
  joined by line feeds.
\<close>

theorem format_emits_per_result:
  "formatResearchForPrompt a
     = join_lines (concat (map (\<lambda>p. (''### '' @ provider_label p @ nl)
                                     # concat (map result_lines (filter (\<lambda>r. provider r = p) (results a))))
                             (set_values (map provider (results a))))) \<and>
   (success r \<and> content r \<noteq> [] \<and> sources r \<noteq> [] \<longrightarrow>
      result_lines r = [''**Query:** '' @ query r @ nl, content r, nl @ ''**Sources:**'']
                       @ map (\<lambda>src. ''- '' @ src) (sources r) @ [[]]) \<and>
   (success r \<and> content r \<noteq> [] \<and> sources r = [] \<longrightarrow>
      result_lines r = [''**Query:** '' @ query r @ nl, content r, []]) \<and>
   (\<not> success r \<longrightarrow>
      result_lines r = [''**Query:** '' @ query r, ''*Failed: '' @ error_text (error r) @ ''*'' @ nl]) \<and>
   (success r \<and> content r = [] \<longrightarrow> result_lines r = []) \<and>
   push_result r sections = sections @ result_lines r"
proof -
  have "formatResearchForPrompt a
     = join_lines (concat (map (\<lambda>p. (''### '' @ provider_label p @ nl)
                                     # concat (map result_lines (filter (\<lambda>r. provider r = p) (results a))))
                             (set_values (map provider (results a)))))"
    unfolding formatResearchForPrompt_def format_sections_groups group_lines_def ..
  moreover have "push_result r sections = sections @ result_lines r"
    by (rule push_result_lines)
  ultimately show ?thesis
    by (simp add: result_lines_def)
qed

theorem format_emits_per_result_witness:
  "result_lines found_certifications
     = [''**Query:** test query 1'' @ nl, ''Found certifications'', nl @ ''**Sources:**'',
        ''- https://example.com'', []] \<and>
   result_lines api_timeout = [''**Query:** test'', ''*Failed: API timeout*'' @ nl] \<and>
   result_lines hollow_success = []"
  using format_emits_per_result [of undefined found_certifications]
    format_emits_per_result [of undefined api_timeout]
    format_emits_per_result [of undefined hollow_success]
  by (simp add: found_certifications_def api_timeout_def hollow_success_def error_text_def)

text \<open>
  C9. Every result of conductResearch carries the name of the provider of its task and
  the query string dispatched for it; the result the orchestrator builds for a rejected
  task promise carries them too; and each provider client returns, in its success and
  failure branches alike, its own name and the query it was given.
\<close>

theorem results_carry_provider_and_query:
  "(\<forall>i<9. provider (results (conductResearch v cfg s w) ! i)
             = name (fst (build_tasks (provider_table v cfg s) ! i)) \<and>
           query (results (conductResearch v cfg s w) ! i)
             = snd (build_tasks (provider_table v cfg s) ! i)) \<and>
   (\<forall>i<length (build_tasks ps). \<forall>reason.
      search (fst (build_tasks ps ! i)) (snd (build_tasks ps ! i)) tmo (call w' i) = Inl reason \<longrightarrow>
        provider (results (conductResearchWith ps tmo w') ! i) = name (fst (build_tasks ps ! i)) \<and>
        query (results (conductResearchWith ps tmo w') ! i) = snd (build_tasks ps ! i)) \<and>
   (\<exists>r. perplexity_search k q t env = Inr r \<and>
        provider r = name (PerplexityProvider k) \<and> query r = q) \<and>
   (\<exists>r. gemini_search k q t env = Inr r \<and>
        provider r = name (GeminiProvider k) \<and> query r = q) \<and>
   (\<exists>r. grok_search k q t env = Inr r \<and>
        provider r = name (GrokProvider k) \<and> query r = q)"
proof (intro conjI allI impI)
  fix i :: nat
  assume "i < 9"
  then show "provider (results (conductResearch v cfg s w) ! i)
             = name (fst (build_tasks (provider_table v cfg s) ! i))"
    and "query (results (conductResearch v cfg s w) ! i)
             = snd (build_tasks (provider_table v cfg s) ! i)"
    using result_conductResearch [of i v cfg s w] by simp_all
next
  fix i reason
  assume i: "i < length (build_tasks ps)"
    and rej: "search (fst (build_tasks ps ! i)) (snd (build_tasks ps ! i)) tmo (call w' i) = Inl reason"
  then show "provider (results (conductResearchWith ps tmo w') ! i) = name (fst (build_tasks ps ! i))"
    and "query (results (conductResearchWith ps tmo w') ! i) = snd (build_tasks ps ! i)"
    by (simp_all add: results_nth synthesized_def)
next
  obtain r where r: "perplexity_search k q t env = Inr r"
    using perplexity_search_Inr by blast
  with perplexity_search_fields [OF r]
  show "\<exists>r. perplexity_search k q t env = Inr r \<and>
        provider r = name (PerplexityProvider k) \<and> query r = q"
    by (simp add: PerplexityProvider_def)
next
  obtain r where r: "gemini_search k q t env = Inr r"
    using gemini_search_Inr by blast
  with gemini_search_fields [OF r]
  show "\<exists>r. gemini_search k q t env = Inr r \<and>
        provider r = name (GeminiProvider k) \<and> query r = q"
    by (simp add: GeminiProvider_def)
next
  obtain r where r: "grok_search k q t env = Inr r"
    using grok_search_Inr by blast
  with grok_search_fields [OF r]
  show "\<exists>r. grok_search k q t env = Inr r \<and>
        provider r = name (GrokProvider k) \<and> query r = q"
    by (simp add: GrokProvider_def)
qed

theorem results_carry_provider_and_query_witness:
  "provider (results (conductResearch ''TestVendor'' test_config None network_down) ! 4) = ''Gemini'' \<and>
   query (results (conductResearch ''TestVendor'' test_config None network_down) ! 4)
     = gemini (generateQueries ''TestVendor'' None) ! 1 \<and>
   search rejecting_provider ''q2'' 5000 (call network_down 1) = Inl (JsValue ''boom'') \<and>
   provider (results (conductResearchWith [(rejecting_provider, [''q1'', ''q2''])] 5000 network_down) ! 1) = ''Mock'' \<and>
   query (results (conductResearchWith [(rejecting_provider, [''q1'', ''q2''])] 5000 network_down) ! 1) = ''q2''"
proof -
  have t: "build_tasks [(rejecting_provider, [''q1'', ''q2''])]
             = [(rejecting_provider, ''q1''), (rejecting_provider, ''q2'')]"
    by (simp add: build_tasks_def)
  have g: "build_tasks (provider_table ''TestVendor'' test_config None) ! 4
             = (GeminiProvider ''test-key'', gemini (generateQueries ''TestVendor'' None) ! 1)"
    by (simp add: tasks_conductResearch nth_append length_queries test_config_def)
  have rej: "search rejecting_provider ''q2'' 5000 (call network_down 1) = Inl (JsValue ''boom'')"
    by (simp add: rejecting_provider_def)
  have n: "name rejecting_provider = ''Mock''" "name (GeminiProvider ''test-key'') = ''Gemini''"
    by (simp_all add: rejecting_provider_def GeminiProvider_def gemini_name_def)
  have four: "(4::nat) < 9" "(1::nat) < 2" by simp_all
  show ?thesis
    using results_carry_provider_and_query [of "''TestVendor''" test_config None network_down
        "[(rejecting_provider, [''q1'', ''q2''])]" 5000 network_down]
      rej n four
    by (simp add: t g)
qed

text \<open>
  C10. Gemini's and Grok's search return a result whose sources list is empty in every
  branch; so every entry of allSources of conductResearch is a source of a result of
  the Perplexity provider.
\<close>

theorem only_perplexity_yields_sources:
  "(\<exists>r. gemini_search k q t env = Inr r \<and> sources r = []) \<and>
   (\<exists>r. grok_search k q t env = Inr r \<and> sources r = []) \<and>
   set (allSources (conductResearch v cfg s w))
     \<subseteq> set (concat (map sources
             (filter (\<lambda>r. provider r = ''Perplexity'') (results (conductResearch v cfg s w)))))"
proof (intro conjI)
  obtain r where r: "gemini_search k q t env = Inr r"
    using gemini_search_Inr by blast
  with gemini_search_fields [OF r] show "\<exists>r. gemini_search k q t env = Inr r \<and> sources r = []"
    by simp
next
  obtain r where r: "grok_search k q t env = Inr r"
    using grok_search_Inr by blast
  with grok_search_fields [OF r] show "\<exists>r. grok_search k q t env = Inr r \<and> sources r = []"
    by simp
next
  let ?rs = "results (conductResearch v cfg s w)"
  have each: "provider r = ''Perplexity'' \<or> sources r = []" if "r \<in> set ?rs" for r
  proof -
    from that obtain i where "i < 9" and "r = ?rs ! i"
      by (auto simp: in_set_conv_nth length_results_conductResearch)
    note \<open>r = ?rs ! i\<close>
    moreover from \<open>i < 9\<close> have "provider (?rs ! i) = perplexity_name \<or> sources (?rs ! i) = []"
      using result_conductResearch [of i v cfg s w] by blast
    ultimately show ?thesis
      by (simp add: perplexity_name_def)
  qed
  have "set (allSources (conductResearch v cfg s w)) \<subseteq> set (concat (map sources ?rs))"
    unfolding conductResearch_With allSources_conductResearchWith by (rule set_collect_sources)
  also have "\<dots> \<subseteq> set (concat (map sources (filter (\<lambda>r. provider r = ''Perplexity'') ?rs)))"
    using each by fastforce
  finally show "set (allSources (conductResearch v cfg s w))
     \<subseteq> set (concat (map sources (filter (\<lambda>r. provider r = ''Perplexity'') ?rs)))" .
qed

end
